theory Spec2Isabelle
  imports Complex_Main "HOL-Library.AList"
begin

section \<open>JavaScript values\<close>

text \<open>
  A JavaScript \<open>number\<close> is modelled as an exact rational or one of the three special
  values. The rounding error of binary64 arithmetic and the sign of zero are not
  modelled; every division by zero and every operation on a special value is.
\<close>

datatype jsnum = Fin rat | PInf | NInf | NaN

datatype error = TypeError | RangeError

fun jneg :: "jsnum \<Rightarrow> jsnum" where
  "jneg (Fin a) = Fin (- a)"
| "jneg PInf = NInf"
| "jneg NInf = PInf"
| "jneg NaN = NaN"

fun jadd :: "jsnum \<Rightarrow> jsnum \<Rightarrow> jsnum" where
  "jadd (Fin a) (Fin b) = Fin (a + b)"
| "jadd NaN _ = NaN"
| "jadd _ NaN = NaN"
| "jadd PInf NInf = NaN"
| "jadd NInf PInf = NaN"
| "jadd PInf _ = PInf"
| "jadd _ PInf = PInf"
| "jadd NInf _ = NInf"
| "jadd _ NInf = NInf"

definition jsub :: "jsnum \<Rightarrow> jsnum \<Rightarrow> jsnum" where
  "jsub a b = jadd a (jneg b)"

definition inf_sign :: "rat \<Rightarrow> jsnum" where
  "inf_sign a = (if a = 0 then NaN else if 0 < a then PInf else NInf)"

fun jmul :: "jsnum \<Rightarrow> jsnum \<Rightarrow> jsnum" where
  "jmul (Fin a) (Fin b) = Fin (a * b)"
| "jmul NaN _ = NaN"
| "jmul _ NaN = NaN"
| "jmul (Fin a) PInf = inf_sign a"
| "jmul (Fin a) NInf = inf_sign (- a)"
| "jmul PInf (Fin b) = inf_sign b"
| "jmul NInf (Fin b) = inf_sign (- b)"
| "jmul PInf PInf = PInf"
| "jmul NInf NInf = PInf"
| "jmul PInf NInf = NInf"
| "jmul NInf PInf = NInf"

fun jdiv :: "jsnum \<Rightarrow> jsnum \<Rightarrow> jsnum" where
  "jdiv (Fin a) (Fin b) = (if b = 0 then inf_sign a else Fin (a / b))"
| "jdiv NaN _ = NaN"
| "jdiv _ NaN = NaN"
| "jdiv (Fin a) PInf = Fin 0"
| "jdiv (Fin a) NInf = Fin 0"
| "jdiv PInf (Fin b) = (if 0 \<le> b then PInf else NInf)"
| "jdiv NInf (Fin b) = (if 0 \<le> b then NInf else PInf)"
| "jdiv PInf PInf = NaN"
| "jdiv PInf NInf = NaN"
| "jdiv NInf PInf = NaN"
| "jdiv NInf NInf = NaN"

text \<open>\<open>Math.round\<close> rounds to the nearest integer, a half upwards; \<open>Math.floor\<close>.\<close>

fun jround :: "jsnum \<Rightarrow> jsnum" where
  "jround (Fin a) = Fin (of_int \<lfloor>a + 1 / 2\<rfloor>)"
| "jround x = x"

fun jfloor :: "jsnum \<Rightarrow> jsnum" where
  "jfloor (Fin a) = Fin (of_int \<lfloor>a\<rfloor>)"
| "jfloor x = x"

fun jlt :: "jsnum \<Rightarrow> jsnum \<Rightarrow> bool" where
  "jlt (Fin a) (Fin b) = (a < b)"
| "jlt NaN _ = False"
| "jlt _ NaN = False"
| "jlt NInf NInf = False"
| "jlt NInf _ = True"
| "jlt _ NInf = False"
| "jlt PInf _ = False"
| "jlt _ PInf = True"

definition jgt :: "jsnum \<Rightarrow> jsnum \<Rightarrow> bool" where
  "jgt a b = jlt b a"

text \<open>Strict equality \<open>===\<close> on numbers: \<open>NaN\<close> equals nothing.\<close>

definition jseq :: "jsnum \<Rightarrow> jsnum \<Rightarrow> bool" where
  "jseq a b = (a = b \<and> a \<noteq> NaN)"

text \<open>The remainder operator \<open>%\<close>: the result has the sign of the dividend.\<close>

definition trunc_rat :: "rat \<Rightarrow> int" where
  "trunc_rat a = (if 0 \<le> a then \<lfloor>a\<rfloor> else - \<lfloor>- a\<rfloor>)"

fun jrem :: "jsnum \<Rightarrow> jsnum \<Rightarrow> jsnum" where
  "jrem (Fin a) (Fin b) = (if b = 0 then NaN else Fin (a - b * of_int (trunc_rat (a / b))))"
| "jrem (Fin a) PInf = Fin a"
| "jrem (Fin a) NInf = Fin a"
| "jrem _ _ = NaN"

text \<open>Truthiness of a number, and of a property that may be absent (\<open>undefined\<close>).\<close>

fun truthy :: "jsnum \<Rightarrow> bool" where
  "truthy (Fin a) = (a \<noteq> 0)"
| "truthy NaN = False"
| "truthy _ = True"

text \<open>\<open>ToNumber\<close> of a value that may be \<open>undefined\<close>: \<open>undefined\<close> becomes \<open>NaN\<close>.\<close>

fun toNumber :: "jsnum option \<Rightarrow> jsnum" where
  "toNumber None = NaN"
| "toNumber (Some x) = x"

definition ofInt :: "int \<Rightarrow> jsnum" where
  "ofInt i = Fin (of_int i)"

subsection \<open>Numbers as text\<close>

definition digitChar :: "nat \<Rightarrow> char" where
  "digitChar d = ''0123456789'' ! d"

fun decimal :: "nat \<Rightarrow> string" where
  "decimal n = (if n < 10 then [digitChar n] else decimal (n div 10) @ [digitChar (n mod 10)])"

definition int_to_string :: "int \<Rightarrow> string" where
  "int_to_string i = (if 0 \<le> i then decimal (nat i) else CHR ''-'' # decimal (nat (- i)))"

text \<open>
  \<open>ToString\<close> of a number, as string concatenation and template literals apply it. The
  program applies it only to results of \<open>Math.floor\<close>, which are integral or special;
  integral values print in decimal (JavaScript does so below \<open>10\<^sup>2\<^sup>1\<close>).
\<close>

fun num_to_string :: "jsnum \<Rightarrow> string" where
  "num_to_string (Fin a) = int_to_string \<lfloor>a\<rfloor>"
| "num_to_string PInf = ''Infinity''"
| "num_to_string NInf = ''-Infinity''"
| "num_to_string NaN = ''NaN''"

text \<open>
  \<open>Number.prototype.toFixed\<close>: a \<open>RangeError\<close> outside 0..100 digits, the special values
  by name, otherwise the nearest decimal with that many digits (the larger on a tie), the
  sign taken from the number. (From \<open>10\<^sup>2\<^sup>1\<close> on JavaScript prints the exponent
  form instead; the model prints every finite number in decimal.)
\<close>

definition toFixed :: "int \<Rightarrow> jsnum \<Rightarrow> error + string" where
  "toFixed f x =
     (if f < 0 \<or> 100 < f then Inl RangeError
      else case x of
        NaN \<Rightarrow> Inr ''NaN''
      | PInf \<Rightarrow> Inr ''Infinity''
      | NInf \<Rightarrow> Inr ''-Infinity''
      | Fin r \<Rightarrow>
          (let p = nat f;
               ds = decimal (nat \<lfloor>\<bar>r\<bar> * 10 ^ p + 1 / 2\<rfloor>);
               padded = replicate (p + 1 - length ds) (CHR ''0'') @ ds;
               k = length padded - p
           in Inr ((if r < 0 then ''-'' else '''') @ take k padded @
                   (if p = 0 then '''' else ''.'' @ drop k padded))))"

subsection \<open>Strings\<close>

text \<open>\<open>rstrip(needle, haystack)\<close> for a one-character needle: one trailing occurrence goes.\<close>

definition rstrip :: "char \<Rightarrow> string \<Rightarrow> string" where
  "rstrip needle haystack =
     (if haystack \<noteq> [] \<and> last haystack = needle then butlast haystack else haystack)"

definition is_space :: "char \<Rightarrow> bool" where
  "is_space c = (c \<in> set [CHR '' '', CHR 0x09, CHR 0x0A, CHR 0x0B, CHR 0x0C, CHR 0x0D])"

definition trim :: "string \<Rightarrow> string" where
  "trim s = rev (dropWhile is_space (rev (dropWhile is_space s)))"

text \<open>\<open>s.split(',')\<close>: the pieces between commas, the empty ones included.\<close>

fun split_comma :: "string \<Rightarrow> string list" where
  "split_comma [] = [[]]"
| "split_comma (c # cs) =
     (if c = CHR '','' then [] # split_comma cs
      else (case split_comma cs of
              [] \<Rightarrow> [[c]]
            | w # ws \<Rightarrow> (c # w) # ws))"

text \<open>\<open>s.replace(/0+$/, '')\<close> and \<open>s.replace(/\.$/, '')\<close>.\<close>

definition strip_zeros :: "string \<Rightarrow> string" where
  "strip_zeros s = rev (dropWhile (\<lambda>c. c = CHR ''0'') (rev s))"

section \<open>Data model\<close>

text \<open>
  A MIDI event as the parser delivers it: a delta time and a tagged body. Channel, pitch
  and velocity are integers (bytes of the file). \<open>Note\<close> is the resolved note of a score;
  \<open>Other\<close> stands for every other event type (track name, program change, ...), whose
  payload the converter never reads; \<open>Absent\<close> is an object with no \<open>type\<close> property.
\<close>

datatype body =
    NoteOn int int int
  | NoteOff int int int
  | Note int int int
  | SetTempo jsnum
  | Other
  | Absent

record OpusEvent =
  deltaTime :: jsnum
  body :: body

text \<open>
  A score event is an event with the property \<open>begin\<close> (here \<open>begin_tick\<close>), the
  position at which the event fires; the property is absent on \<open>None\<close>.
\<close>

record ScoreEvent = OpusEvent +
  begin_tick :: "jsnum option"

record 'e piece =
  tpq :: jsnum
  tracks :: "'e list list"

type_synonym Opus = "OpusEvent piece"
type_synonym Score = "ScoreEvent piece"

record MidiHeader =
  ticksPerBeat :: "int option"
  ticksPerFrame :: "int option"

record MidiData =
  header :: MidiHeader
  midiTracks :: "OpusEvent list list"

text \<open>The \<open>noteNumber\<close> property of an event, \<open>undefined\<close> where the event has none.\<close>

fun noteNumber :: "body \<Rightarrow> int option" where
  "noteNumber (NoteOn cha pitch vel) = Some pitch"
| "noteNumber (NoteOff cha pitch vel) = Some pitch"
| "noteNumber (Note cha pitch vel) = Some pitch"
| "noteNumber _ = None"

section \<open>The converter and its configuration\<close>

record PianoConverter =
  lineLengthLim :: int
  linesLimit :: int
  tickLag :: rat
  timeQuanta :: jsnum
  octaveTranspose :: int
  floatPrecision :: int
  octaveKeys :: int
  highestOctave :: int
  endOfLineChar :: string
  overallImportLimit :: int

record options =
  optLineLengthLim :: "int option"
  optLinesLimit :: "int option"
  optTickLag :: "rat option"
  optOctaveTranspose :: "int option"
  optFloatPrecision :: "int option"
  optOctaveKeys :: "int option"
  optHighestOctave :: "int option"
  optEndOfLineChar :: "string option"

fun orDefault :: "'a option \<Rightarrow> 'a \<Rightarrow> 'a" where
  "orDefault None d = d"
| "orDefault (Some v) d = v"

definition newPianoConverter :: "options \<Rightarrow> PianoConverter" where
  "newPianoConverter opts =
     (let lll = orDefault (optLineLengthLim opts) 50;
          ll = orDefault (optLinesLimit opts) 200;
          tl = orDefault (optTickLag opts) (1 / 2)
      in \<lparr> lineLengthLim = lll,
           linesLimit = ll,
           tickLag = tl,
           timeQuanta = jmul (Fin 100) (Fin tl),
           octaveTranspose = orDefault (optOctaveTranspose opts) 0,
           floatPrecision = orDefault (optFloatPrecision opts) 2,
           octaveKeys = orDefault (optOctaveKeys opts) 12,
           highestOctave = orDefault (optHighestOctave opts) 8,
           endOfLineChar = orDefault (optEndOfLineChar opts) [CHR 0x0A],
           overallImportLimit = 2 * lll * ll \<rparr>)"

definition noOptions :: options where
  "noOptions =
     \<lparr> optLineLengthLim = None, optLinesLimit = None, optTickLag = None,
       optOctaveTranspose = None, optFloatPrecision = None, optOctaveKeys = None,
       optHighestOctave = None, optEndOfLineChar = None \<rparr>"









section \<open>Utility functions\<close>

definition bind :: "error + 'a \<Rightarrow> ('a \<Rightarrow> error + 'b) \<Rightarrow> error + 'b" where
  "bind r f = (case r of Inl e \<Rightarrow> Inl e | Inr v \<Rightarrow> f v)"

text \<open>\<open>condition\<close>: the event has a type, and the type is \<open>"note"\<close>.\<close>

definition condition :: "ScoreEvent \<Rightarrow> bool" where
  "condition event = (case body event of Note cha pitch vel \<Rightarrow> True | _ \<Rightarrow> False)"

subsection \<open>Time Rebaser: \<open>toMs\<close>\<close>

text \<open>
  The inner loop of \<open>toMs\<close> over one track. \<open>millisecPerOldTick\<close> is declared outside
  the loop over the tracks, so the rate a track ends with is the rate the next one starts
  with: the loop returns it beside the new events.
\<close>

fun toMsEvents ::
  "jsnum \<Rightarrow> jsnum \<Rightarrow> jsnum \<Rightarrow> jsnum \<Rightarrow> OpusEvent list \<Rightarrow> OpusEvent list \<times> jsnum" where
  "toMsEvents oldTpq millisecPerOldTick millisecSoFar previousMillisecSoFar [] =
     ([], millisecPerOldTick)"
| "toMsEvents oldTpq millisecPerOldTick millisecSoFar previousMillisecSoFar (oldEvent # rest) =
     (let soFar = jadd millisecSoFar (jmul millisecPerOldTick (deltaTime oldEvent));
          newEvent = oldEvent\<lparr>deltaTime := jround (jsub soFar previousMillisecSoFar)\<rparr>
      in case body oldEvent of
           SetTempo microsecondsPerBeat \<Rightarrow>
             toMsEvents oldTpq (jdiv microsecondsPerBeat (jmul (Fin 1000) oldTpq)) soFar
               previousMillisecSoFar rest
         | _ \<Rightarrow>
             (case toMsEvents oldTpq millisecPerOldTick soFar soFar rest of
                (newTrack, rate) \<Rightarrow> (newEvent # newTrack, rate)))"

definition tempoReset :: OpusEvent where
  "tempoReset = \<lparr> deltaTime = Fin 0, body = SetTempo (Fin 1000000) \<rparr>"

fun toMsTracks :: "jsnum \<Rightarrow> jsnum \<Rightarrow> OpusEvent list list \<Rightarrow> OpusEvent list list" where
  "toMsTracks oldTpq millisecPerOldTick [] = []"
| "toMsTracks oldTpq millisecPerOldTick (oldTrack # rest) =
     (case toMsEvents oldTpq millisecPerOldTick (Fin 0) (Fin 0) oldTrack of
        (newTrack, rate) \<Rightarrow> (tempoReset # newTrack) # toMsTracks oldTpq rate rest)"

fun toMs :: "Opus option \<Rightarrow> Opus" where
  "toMs None = \<lparr> tpq = Fin 1000, tracks = [] \<rparr>"
| "toMs (Some oldOpus) =
     \<lparr> tpq = Fin 1000,
       tracks = toMsTracks (tpq oldOpus) (jdiv (Fin 1000) (jround (tpq oldOpus)))
                  (tracks oldOpus) \<rparr>"

subsection \<open>Note Pairer: \<open>opus2score\<close>\<close>

text \<open>
  The state of the loop over one track. \<open>channelPitchToNoteOnEvents\<close> is an object used
  as a dictionary: an association list in insertion order.
\<close>

record pairer =
  ticksSoFar :: jsnum
  scoreTrack :: "ScoreEvent list"
  channelPitchToNoteOnEvents :: "(int \<times> ScoreEvent list) list"

definition noteKey :: "int \<Rightarrow> int \<Rightarrow> int" where
  "noteKey cha pitch = cha * 128 + pitch"

text \<open>
  The note-off branch. The guard \<open>if (channelPitchToNoteOnEvents[key])\<close> holds for every
  array, the empty one too; there \<open>shift()\<close> gives \<open>undefined\<close>, and the assignment to
  its \<open>deltaTime\<close> throws a \<open>TypeError\<close>.
\<close>

definition closeNote :: "int \<Rightarrow> pairer \<Rightarrow> error + pairer" where
  "closeNote key s =
     (case map_of (channelPitchToNoteOnEvents s) key of
        None \<Rightarrow> Inr s
      | Some [] \<Rightarrow> Inl TypeError
      | Some (newEvent # queue) \<Rightarrow>
          Inr (s\<lparr> scoreTrack := scoreTrack s @
                    [newEvent\<lparr>deltaTime :=
                       jsub (ticksSoFar s) (toNumber (begin_tick newEvent))\<rparr>],
                  channelPitchToNoteOnEvents :=
                    AList.update key queue (channelPitchToNoteOnEvents s) \<rparr>))"

definition openNote :: "int \<Rightarrow> int \<Rightarrow> int \<Rightarrow> pairer \<Rightarrow> pairer" where
  "openNote cha pitch vel s =
     (let key = noteKey cha pitch;
          newEvent = \<lparr> deltaTime = Fin 0, body = Note cha pitch vel,
                       begin_tick = Some (ticksSoFar s) \<rparr>
      in s\<lparr> channelPitchToNoteOnEvents :=
              (case map_of (channelPitchToNoteOnEvents s) key of
                 Some queue \<Rightarrow>
                   AList.update key (queue @ [newEvent]) (channelPitchToNoteOnEvents s)
               | None \<Rightarrow> AList.update key [newEvent] (channelPitchToNoteOnEvents s)) \<rparr>)"

definition pairEvent :: "pairer \<Rightarrow> OpusEvent \<Rightarrow> error + pairer" where
  "pairEvent s0 opusEvent =
     (let s = s0\<lparr>ticksSoFar := jadd (ticksSoFar s0) (deltaTime opusEvent)\<rparr>
      in case body opusEvent of
           NoteOff cha pitch vel \<Rightarrow> closeNote (noteKey cha pitch) s
         | NoteOn cha pitch vel \<Rightarrow>
             (if vel = 0 then closeNote (noteKey cha pitch) s
              else Inr (openNote cha pitch vel s))
         | _ \<Rightarrow>
             Inr (s\<lparr> scoreTrack := scoreTrack s @
                       [\<lparr> deltaTime = deltaTime opusEvent, body = body opusEvent,
                          begin_tick = Some (ticksSoFar s) \<rparr>] \<rparr>))"

fun pairEvents :: "pairer \<Rightarrow> OpusEvent list \<Rightarrow> error + pairer" where
  "pairEvents s [] = Inr s"
| "pairEvents s (opusEvent # rest) =
     (case pairEvent s opusEvent of
        Inl e \<Rightarrow> Inl e
      | Inr s' \<Rightarrow> pairEvents s' rest)"

text \<open>
  \<open>for (const channelPitch in ...)\<close> visits the keys that are array indices (integers
  from 0 to \<open>2\<^sup>3\<^sup>2 - 2\<close>) in ascending order, then the other keys in insertion order.
\<close>

definition isArrayIndex :: "int \<Rightarrow> bool" where
  "isArrayIndex k = (0 \<le> k \<and> k < 4294967295)"

definition forInOrder :: "(int \<times> 'a) list \<Rightarrow> (int \<times> 'a) list" where
  "forInOrder d =
     sort_key fst (filter (\<lambda>kv. isArrayIndex (fst kv)) d) @
     filter (\<lambda>kv. \<not> isArrayIndex (fst kv)) d"

text \<open>The unterminated notes, finalized at the last position of the track.\<close>

definition unterminated :: "pairer \<Rightarrow> ScoreEvent list" where
  "unterminated s =
     map (\<lambda>newEvent. newEvent\<lparr>deltaTime :=
            jsub (ticksSoFar s) (toNumber (begin_tick newEvent))\<rparr>)
       (concat (map snd (forInOrder (channelPitchToNoteOnEvents s))))"

definition newPairer :: pairer where
  "newPairer = \<lparr> ticksSoFar = Fin 0, scoreTrack = [], channelPitchToNoteOnEvents = [] \<rparr>"

definition pairTrack :: "OpusEvent list \<Rightarrow> error + ScoreEvent list" where
  "pairTrack opusTrack =
     (case pairEvents newPairer opusTrack of
        Inl e \<Rightarrow> Inl e
      | Inr s \<Rightarrow> Inr (scoreTrack s @ unterminated s))"

fun pairTracks :: "OpusEvent list list \<Rightarrow> error + ScoreEvent list list" where
  "pairTracks [] = Inr []"
| "pairTracks (opusTrack # rest) =
     (case pairTrack opusTrack of
        Inl e \<Rightarrow> Inl e
      | Inr newTrack \<Rightarrow>
          (case pairTracks rest of
             Inl e \<Rightarrow> Inl e
           | Inr others \<Rightarrow> Inr (newTrack # others)))"

definition opus2score :: "Opus \<Rightarrow> error + Score" where
  "opus2score opus =
     (if length (tracks opus) < 2 then Inr \<lparr> tpq = Fin 1000, tracks = [] \<rparr>
      else case pairTracks (tracks opus) of
             Inl e \<Rightarrow> Inl e
           | Inr scoreTracks \<Rightarrow> Inr \<lparr> tpq = tpq opus, tracks = scoreTracks \<rparr>)"

subsection \<open>\<open>midi2opus\<close> and \<open>midi2scoreNoTick\<close>\<close>

fun truthyInt :: "int option \<Rightarrow> bool" where
  "truthyInt None = False"
| "truthyInt (Some i) = (i \<noteq> 0)"

definition midi2opus :: "MidiHeader \<Rightarrow> OpusEvent list list \<Rightarrow> Opus" where
  "midi2opus hdr trks =
     \<lparr> tpq =
         (if truthyInt (ticksPerFrame hdr)
          then jmul (toNumber (map_option ofInt (ticksPerFrame hdr)))
                 (toNumber (map_option ofInt (ticksPerBeat hdr)))
          else if truthyInt (ticksPerBeat hdr)
          then toNumber (map_option ofInt (ticksPerBeat hdr))
          else Fin 160),
       tracks = trks \<rparr>"

definition midi2scoreNoTick :: "MidiHeader \<Rightarrow> OpusEvent list list \<Rightarrow> error + Score" where
  "midi2scoreNoTick hdr trks = opus2score (toMs (Some (midi2opus hdr trks)))"

section \<open>Conversion functions\<close>

subsection \<open>Track Merger and Sorter\<close>

definition filterEventsFromScore :: "Score \<Rightarrow> Score" where
  "filterEventsFromScore score =
     \<lparr> tpq = tpq score, tracks = map (filter condition) (tracks score) \<rparr>"

definition filterEmptyTracks :: "Score \<Rightarrow> Score" where
  "filterEmptyTracks score =
     score\<lparr>tracks := filter (\<lambda>scoreTrack. 0 < length scoreTrack) (tracks score)\<rparr>"

definition mergeEvents :: "Score \<Rightarrow> Score" where
  "mergeEvents score =
     score\<lparr>tracks := [foldl (\<lambda>merged track. merged @ track) [] (tracks score)]\<rparr>"

text \<open>
  \<open>sort((a, b) => a.begin - b.begin)\<close> is a stable sort; a comparison that gives \<open>NaN\<close>
  counts as equal. With a position that is \<open>NaN\<close> the comparison is not an order and the
  result depends on the engine; the model is insertion sort.
\<close>

fun insertEvent :: "ScoreEvent \<Rightarrow> ScoreEvent list \<Rightarrow> ScoreEvent list" where
  "insertEvent a [] = [a]"
| "insertEvent a (b # rest) =
     (if jgt (jsub (toNumber (begin_tick a)) (toNumber (begin_tick b))) (Fin 0)
      then b # insertEvent a rest
      else a # b # rest)"

definition sortTrack :: "ScoreEvent list \<Rightarrow> ScoreEvent list" where
  "sortTrack track = foldr insertEvent track []"

definition sortScoreByEventTimes :: "Score \<Rightarrow> Score" where
  "sortScoreByEventTimes score = score\<lparr>tracks := map sortTrack (tracks score)\<rparr>"

subsection \<open>Quantizer\<close>

text \<open>The loop \<open>for (i = 0; i < track.length - 1; i++)\<close> of \<open>convertIntoSecondsPerTicks\<close>.\<close>

fun gaps :: "ScoreEvent list \<Rightarrow> ScoreEvent list" where
  "gaps (currentEvent # nextEvent # rest) =
     currentEvent\<lparr>deltaTime :=
       jsub (toNumber (begin_tick nextEvent)) (toNumber (begin_tick currentEvent))\<rparr>
     # gaps (nextEvent # rest)"
| "gaps [currentEvent] = []"
| "gaps [] = []"

text \<open>
  The last event, with its fixed duration. On an empty track \<open>track[track.length - 1]\<close>
  is \<open>undefined\<close>, whose spread has no property: the new event has a \<open>deltaTime\<close> only.
\<close>

definition newLastEvent :: "ScoreEvent list \<Rightarrow> ScoreEvent" where
  "newLastEvent track =
     (if track = [] then \<lparr> deltaTime = Fin 1000, body = Absent, begin_tick = None \<rparr>
      else (last track)\<lparr>deltaTime := Fin 1000\<rparr>)"

definition convertIntoSecondsPerTicks :: "Score \<Rightarrow> Score" where
  "convertIntoSecondsPerTicks score =
     \<lparr> tpq = tpq score,
       tracks = map (\<lambda>track. gaps track @ [newLastEvent track]) (tracks score) \<rparr>"

text \<open>
  \<open>performRoundation\<close> reads \<open>score.tracks[0]\<close>, which throws on a score with no track.
  A quantized note is a pair of the rounded duration and the pitch, \<open>undefined\<close> when the
  event has no \<open>noteNumber\<close>.
\<close>

definition roundDelta :: "PianoConverter \<Rightarrow> jsnum \<Rightarrow> jsnum" where
  "roundDelta c d = jmul (jround (jdiv d (timeQuanta c))) (timeQuanta c)"

definition performRoundation ::
  "PianoConverter \<Rightarrow> Score \<Rightarrow> error + (jsnum \<times> int option) list" where
  "performRoundation c score =
     (case tracks score of
        [] \<Rightarrow> Inl TypeError
      | track # others \<Rightarrow>
          Inr (map (\<lambda>event. (roundDelta c (deltaTime event), noteNumber (body event))) track))"

text \<open>\<open>Array.from(new Set(xs))\<close>: the values of \<open>xs\<close> in the order of their first occurrence.\<close>

definition uniq :: "'a list \<Rightarrow> 'a list" where
  "uniq xs = rev (remdups (rev xs))"

text \<open>\<open>xs.indexOf(v)\<close>: the first index that holds \<open>v\<close>.\<close>

fun indexOf :: "'a list \<Rightarrow> 'a \<Rightarrow> nat option" where
  "indexOf [] v = None"
| "indexOf (x # xs) v = (if x = v then Some 0 else map_option Suc (indexOf xs v))"

text \<open>
  \<open>obtainCommonDuration\<close>. With no nonzero duration \<open>Math.max()\<close> is \<open>-Infinity\<close>,
  \<open>indexOf\<close> gives \<open>-1\<close> and the result is \<open>undefined\<close> (\<open>None\<close>).
\<close>

definition obtainCommonDuration :: "(jsnum \<times> int option) list \<Rightarrow> jsnum option" where
  "obtainCommonDuration score =
     (let durations = filter (\<lambda>dur. \<not> jseq dur (Fin 0)) (map fst score);
          uniqueDurations = uniq durations;
          durationsCount =
            map (\<lambda>dur. length (filter (\<lambda>d. jseq d dur) durations)) uniqueDurations
      in case durationsCount of
           [] \<Rightarrow> None
         | n # ns \<Rightarrow>
             (let highestCount = fold max ns n
              in case indexOf durationsCount highestCount of
                   None \<Rightarrow> None
                 | Some i \<Rightarrow> Some (uniqueDurations ! i)))"

subsection \<open>Chord Reducer\<close>

fun reduceLoop ::
  "(int option list \<times> jsnum) list \<Rightarrow> int option list \<Rightarrow> (jsnum \<times> int option) list
   \<Rightarrow> (int option list \<times> jsnum) list" where
  "reduceLoop newScore newChord [] = newScore"
| "reduceLoop newScore newChord (event # rest) =
     (if jseq (fst event) (Fin 0) then reduceLoop newScore (newChord @ [snd event]) rest
      else reduceLoop (newScore @ [(newChord @ [snd event], fst event)]) [] rest)"

definition reduceScoreToChords ::
  "(jsnum \<times> int option) list \<Rightarrow> (int option list \<times> jsnum) list" where
  "reduceScoreToChords score = reduceLoop [] [] score"

subsection \<open>Notation Renderer\<close>

definition names :: "string list" where
  "names = [''C'', ''C#'', ''D'', ''D#'', ''E'', ''F'', ''F#'', ''G'', ''G#'', ''A'', ''A#'', ''B'']"

definition convertTable :: "nat \<Rightarrow> nat option" where
  "convertTable = map_of [(1, 0), (3, 1), (6, 2), (8, 3), (10, 4)]"

definition inclusionTable :: "nat \<Rightarrow> nat option" where
  "inclusionTable = map_of [(0, 0), (2, 1), (5, 2), (7, 3), (9, 4)]"

definition correspondenceTable :: "nat \<Rightarrow> nat option" where
  "correspondenceTable =
     map_of [(0, 1), (1, 0), (2, 3), (3, 2), (5, 6), (6, 5), (7, 8), (8, 7), (9, 10), (10, 9)]"

text \<open>
  Reading and writing an array element. A write beyond the end extends the array; the
  slots between are holes, which read as \<open>undefined\<close>. The renderer reads an accidental
  only for its truth and an octave only to compare it with a number, so a hole is
  written as \<open>False\<close>, respectively \<open>NaN\<close> (unequal to every number, as \<open>undefined\<close> is).
\<close>

definition arrayGet :: "'a list \<Rightarrow> nat \<Rightarrow> 'a option" where
  "arrayGet xs i = (if i < length xs then Some (xs ! i) else None)"

definition arraySet :: "'a \<Rightarrow> 'a list \<Rightarrow> nat \<Rightarrow> 'a \<Rightarrow> 'a list" where
  "arraySet hole xs i v =
     (if i < length xs then xs[i := v] else xs @ replicate (i - length xs) hole @ [v])"

text \<open>An index at which \<open>names\<close> has an element: an integer from 0 to 11.\<close>

definition nameIndexOf :: "jsnum \<Rightarrow> nat option" where
  "nameIndexOf x =
     (case x of
        Fin r \<Rightarrow> (if r = of_int \<lfloor>r\<rfloor> \<and> 0 \<le> r \<and> r < 12 then Some (nat \<lfloor>r\<rfloor>) else None)
      | _ \<Rightarrow> None)"

text \<open>
  \<open>notenum2string\<close>. Where \<open>names[nameIndex]\<close> is \<open>undefined\<close>, reading its \<open>length\<close>
  throws a \<open>TypeError\<close>.
\<close>

definition notenum2string ::
  "PianoConverter \<Rightarrow> jsnum \<Rightarrow> bool list \<Rightarrow> jsnum list
   \<Rightarrow> error + (string \<times> bool list \<times> jsnum list)" where
  "notenum2string c num0 accidentals octaves =
     (let num = jadd num0 (jmul (ofInt (octaveKeys c)) (ofInt (octaveTranspose c)));
          octave = jfloor (jdiv num (ofInt (octaveKeys c)))
      in if jlt octave (Fin 1) \<or> jgt octave (ofInt (highestOctave c))
         then Inr ([], accidentals, octaves)
         else case nameIndexOf (jrem num (ofInt (octaveKeys c))) of
           None \<Rightarrow> Inl TypeError
         | Some nameIndex \<Rightarrow>
             (let accidental = (length (names ! nameIndex) = 2);
                  octaves1 = arraySet NaN octaves nameIndex octave;
                  outputOctaves =
                    (case correspondenceTable nameIndex of
                       Some j \<Rightarrow> arraySet NaN octaves1 j octave
                     | None \<Rightarrow> octaves1);
                  addN =
                    (if accidental then False
                     else case inclusionTable nameIndex of
                            Some j \<Rightarrow> (arrayGet accidentals j = Some True)
                          | None \<Rightarrow> False);
                  outputAccidentals =
                    (if accidental
                     then (case convertTable nameIndex of
                             Some j \<Rightarrow> arraySet False accidentals j True
                           | None \<Rightarrow> accidentals)
                     else (case inclusionTable nameIndex of
                             Some j \<Rightarrow> arraySet False accidentals j False
                           | None \<Rightarrow> accidentals))
              in Inr (names ! nameIndex @ (if addN then ''n'' else []) @
                      (if (case arrayGet octaves nameIndex of
                             None \<Rightarrow> True
                           | Some shown \<Rightarrow> \<not> jseq octave shown)
                       then num_to_string octave else []),
                      outputAccidentals, outputOctaves)))"

text \<open>\<open>durToMod\<close>; its second parameter defaults to 1 when the argument is \<open>undefined\<close>.\<close>

definition durToMod :: "PianoConverter \<Rightarrow> jsnum \<Rightarrow> jsnum option \<Rightarrow> error + string" where
  "durToMod c dur bpm_mod =
     bind (toFixed (floatPrecision c) (jdiv (orDefault bpm_mod (Fin 1)) dur))
       (\<lambda>roundedMod. Inr (rstrip (CHR ''.'') (strip_zeros roundedMod)))"

text \<open>
  The inner loop of \<open>obtainSheetMusic\<close> over the pitches of one chord, on the text so far
  and the render state (accidental flags, octave slots).
\<close>

fun renderPitches ::
  "PianoConverter \<Rightarrow> int option list \<Rightarrow> string \<times> bool list \<times> jsnum list
   \<Rightarrow> error + (string \<times> bool list \<times> jsnum list)" where
  "renderPitches c [] st = Inr st"
| "renderPitches c (pitch # rest) (sheetMusic, accidentals, octaves) =
     (case notenum2string c (toNumber (map_option ofInt pitch))
             accidentals octaves of
        Inl e \<Rightarrow> Inl e
      | Inr (token, accidentals', octaves') \<Rightarrow>
          renderPitches c rest
            (sheetMusic @ token @ (if rest \<noteq> [] then ''-'' else []), accidentals', octaves'))"

fun renderChords ::
  "PianoConverter \<Rightarrow> jsnum option \<Rightarrow> (int option list \<times> jsnum) list
   \<Rightarrow> string \<times> bool list \<times> jsnum list \<Rightarrow> error + (string \<times> bool list \<times> jsnum list)" where
  "renderChords c mostFrequentDur [] st = Inr st"
| "renderChords c mostFrequentDur (event # rest) st =
     (case renderPitches c (fst event) st of
        Inl e \<Rightarrow> Inl e
      | Inr (sheetMusic, accidentals, octaves) \<Rightarrow>
          (case (if (case mostFrequentDur of
                       None \<Rightarrow> True
                     | Some d \<Rightarrow> \<not> jseq (snd event) d)
                 then bind (durToMod c (snd event) mostFrequentDur)
                        (\<lambda>modifier. Inr (sheetMusic @ ''/'' @ modifier))
                 else Inr sheetMusic) of
             Inl e \<Rightarrow> Inl e
           | Inr sheetMusic' \<Rightarrow>
               renderChords c mostFrequentDur rest (sheetMusic' @ '','', accidentals, octaves)))"

definition obtainSheetMusic ::
  "PianoConverter \<Rightarrow> (int option list \<times> jsnum) list \<Rightarrow> jsnum option \<Rightarrow> error + string" where
  "obtainSheetMusic c score mostFrequentDur =
     bind (renderChords c mostFrequentDur score ([], replicate 7 False, replicate 12 (Fin 3)))
       (\<lambda>st. Inr (fst st))"

subsection \<open>Line Formatter\<close>

text \<open>
  The loop of \<open>explodeSheetMusic\<close>. When the first piece is already too long,
  \<open>splitList[splitList.length - 1]\<close> is \<open>undefined\<close> and \<open>rstrip\<close> throws on it.
\<close>

fun explodeLoop ::
  "PianoConverter \<Rightarrow> string list \<Rightarrow> int \<Rightarrow> int \<Rightarrow> string list \<Rightarrow> error + string list" where
  "explodeLoop c splitList counter lineCounter [] = Inr splitList"
| "explodeLoop c splitList counter lineCounter (note # rest) =
     (if linesLimit c - 1 < lineCounter then Inr splitList
      else if lineLengthLim c - 2 < counter + int (length note)
      then (if splitList = [] then Inl TypeError
            else explodeLoop c
                   (butlast splitList @ [rstrip (CHR '','') (last splitList) @ endOfLineChar c]
                    @ [note @ '',''])
                   (0 + int (length note)) (lineCounter + 1) rest)
      else explodeLoop c (splitList @ [note @ '','']) (counter + int (length note))
             lineCounter rest)"

definition explodeSheetMusic :: "PianoConverter \<Rightarrow> string \<Rightarrow> error + string list" where
  "explodeSheetMusic c sheetMusic = explodeLoop c [] 0 1 (split_comma sheetMusic)"

definition finalizeSheetMusic :: "PianoConverter \<Rightarrow> string list \<Rightarrow> jsnum option \<Rightarrow> string" where
  "finalizeSheetMusic c splitMusic mostFrequentDur =
     (let sheetMusic = concat splitMusic;
          sheetMusic1 = ''BPM: '' @
            num_to_string (jfloor (jdiv (Fin 60000) (toNumber mostFrequentDur))) @
            endOfLineChar c @ sheetMusic;
          sheetMusic2 = trim sheetMusic1;
          sheetMusic3 = rstrip (CHR '','') (rstrip (CHR '','') sheetMusic2)
      in take (nat (min (int (length sheetMusic3)) (overallImportLimit c))) sheetMusic3)"

subsection \<open>\<open>toPiano\<close>\<close>

text \<open>The stages of \<open>toPiano\<close> that do not read the configuration.\<close>

definition mergedScore :: "MidiData \<Rightarrow> error + Score" where
  "mergedScore midi =
     bind (midi2scoreNoTick (header midi) (midiTracks midi))
       (\<lambda>score. Inr (convertIntoSecondsPerTicks (sortScoreByEventTimes (mergeEvents
                  (filterEmptyTracks (filterEventsFromScore score))))))"

definition toPiano :: "PianoConverter \<Rightarrow> MidiData \<Rightarrow> error + string" where
  "toPiano c midi =
     bind (mergedScore midi) (\<lambda>score.
     bind (performRoundation c score) (\<lambda>roundedScore.
       (let mostFrequentDur = obtainCommonDuration roundedScore;
            reducedScore = reduceScoreToChords roundedScore
        in bind (obtainSheetMusic c reducedScore mostFrequentDur) (\<lambda>sheetMusic.
           bind (explodeSheetMusic c sheetMusic) (\<lambda>splitMusic.
             Inr (finalizeSheetMusic c splitMusic mostFrequentDur))))))"


section \<open>Notions for the statements\<close>

subsection \<open>Finite times\<close>

text \<open>A number that is neither \<open>NaN\<close> nor infinite.\<close>

fun isFinite :: "jsnum \<Rightarrow> bool" where
  "isFinite (Fin a) = True"
| "isFinite x = False"



text \<open>A score event with a finite position, and a pairer state that holds only such.\<close>

definition finiteBegin :: "ScoreEvent \<Rightarrow> bool" where
  "finiteBegin event = (case begin_tick event of Some b \<Rightarrow> isFinite b | None \<Rightarrow> False)"


subsection \<open>The Time Rebaser, from the specification\<close>

text \<open>
  The Time Rebaser in the words of the specification (section 4.1), to compare \<open>toMs\<close>
  with: the rate \<open>msPerTick\<close> that a tempo change sets; the position \<open>msSoFar\<close> of every
  event of a track, each event (a tempo change too) advancing it by
  \<open>msPerTick * delta\<close>; and the events emitted, one for every event that is not a tempo
  change, its new delta the rounded distance from the position of the event emitted
  before it.
\<close>

fun isTempo :: "'a OpusEvent_scheme \<Rightarrow> bool" where
  "isTempo e = (case body e of SetTempo us \<Rightarrow> True | _ \<Rightarrow> False)"

definition spec_nextRate :: "jsnum \<Rightarrow> jsnum \<Rightarrow> OpusEvent \<Rightarrow> jsnum" where
  "spec_nextRate oldTimeBase msPerTick e =
     (case body e of
        SetTempo microsecondsPerBeat \<Rightarrow> jdiv microsecondsPerBeat (jmul (Fin 1000) oldTimeBase)
      | _ \<Rightarrow> msPerTick)"

fun spec_msSoFar :: "jsnum \<Rightarrow> jsnum \<Rightarrow> jsnum \<Rightarrow> OpusEvent list \<Rightarrow> jsnum list" where
  "spec_msSoFar oldTimeBase msPerTick msSoFar [] = []"
| "spec_msSoFar oldTimeBase msPerTick msSoFar (e # es) =
     jadd msSoFar (jmul msPerTick (deltaTime e))
     # spec_msSoFar oldTimeBase (spec_nextRate oldTimeBase msPerTick e)
         (jadd msSoFar (jmul msPerTick (deltaTime e))) es"

fun spec_emit :: "jsnum \<Rightarrow> (OpusEvent \<times> jsnum) list \<Rightarrow> OpusEvent list" where
  "spec_emit previousMsSoFar [] = []"
| "spec_emit previousMsSoFar ((e, msSoFar) # rest) =
     e\<lparr>deltaTime := jround (jsub msSoFar previousMsSoFar)\<rparr> # spec_emit msSoFar rest"

definition spec_rebased :: "jsnum \<Rightarrow> jsnum \<Rightarrow> OpusEvent list \<Rightarrow> OpusEvent list" where
  "spec_rebased oldTimeBase msPerTick track =
     spec_emit (Fin 0)
       (filter (\<lambda>ep. \<not> isTempo (fst ep))
          (zip track (spec_msSoFar oldTimeBase msPerTick (Fin 0) track)))"

subsection \<open>The Note Pairer\<close>

text \<open>
  Notions for the Note Pairer: the pending queue of a key; whether a score event is a
  note of a key; whether an event is one the parser can deliver (it delivers no event
  of type \<open>"note"\<close> and none without a type); whether an event closes a note of a
  key (a note-off, or a note-on with velocity 0).
\<close>

definition queueOf :: "pairer \<Rightarrow> int \<Rightarrow> ScoreEvent list" where
  "queueOf s key =
     (case map_of (channelPitchToNoteOnEvents s) key of None \<Rightarrow> [] | Some queue \<Rightarrow> queue)"

definition hasKey :: "int \<Rightarrow> ScoreEvent \<Rightarrow> bool" where
  "hasKey key event =
     (case body event of Note cha pitch vel \<Rightarrow> noteKey cha pitch = key | _ \<Rightarrow> False)"

definition fromParser :: "OpusEvent \<Rightarrow> bool" where
  "fromParser e = (case body e of Note cha pitch vel \<Rightarrow> False | Absent \<Rightarrow> False | _ \<Rightarrow> True)"




text \<open>A note as it was pushed, before a note-off set its duration.\<close>

definition unclosed :: "ScoreEvent \<Rightarrow> ScoreEvent" where
  "unclosed event = event\<lparr>deltaTime := Fin 0\<rparr>"

text \<open>The invariant of the dictionary: a queue holds pending notes of its own key.\<close>

definition wfQueues :: "pairer \<Rightarrow> bool" where
  "wfQueues s =
     list_all
       (\<lambda>kv. list_all (\<lambda>event. hasKey (fst kv) event \<and> deltaTime event = Fin 0) (snd kv))
       (channelPitchToNoteOnEvents s)"

text \<open>
  For counting notes: whether an event opens a note (a note-on with a velocity other
  than 0); the number of pending notes in the dictionary; and the invariant that the
  dictionary has one entry for a key and holds notes only.
\<close>

definition opens :: "OpusEvent \<Rightarrow> bool" where
  "opens e = (case body e of NoteOn cha pitch vel \<Rightarrow> vel \<noteq> 0 | _ \<Rightarrow> False)"

definition pendingCount :: "pairer \<Rightarrow> nat" where
  "pendingCount s = sum_list (map (\<lambda>kv. length (snd kv)) (channelPitchToNoteOnEvents s))"

definition notesOnly :: "pairer \<Rightarrow> bool" where
  "notesOnly s =
     (distinct (map fst (channelPitchToNoteOnEvents s))
      \<and> list_all (\<lambda>kv. list_all condition (snd kv)) (channelPitchToNoteOnEvents s))"

subsection \<open>The Chord Reducer\<close>


subsection \<open>Inputs\<close>

text \<open>
  The scenario input: two tracks; the first holds a middle-C note-on and, 480 ticks
  later, its note-off; 480 ticks per beat; no tempo event.
\<close>

definition middleC :: MidiData where
  "middleC =
     \<lparr> header = \<lparr> ticksPerBeat = Some 480, ticksPerFrame = None \<rparr>,
       midiTracks =
         [[\<lparr> deltaTime = Fin 0, body = NoteOn 0 60 64 \<rparr>,
           \<lparr> deltaTime = Fin 480, body = NoteOff 0 60 64 \<rparr>],
          []] \<rparr>"


definition repeatedOff :: MidiData where
  "repeatedOff =
     \<lparr> header = \<lparr> ticksPerBeat = Some 480, ticksPerFrame = None \<rparr>,
       midiTracks =
         [[\<lparr> deltaTime = Fin 0, body = NoteOn 0 60 64 \<rparr>,
           \<lparr> deltaTime = Fin 480, body = NoteOff 0 60 0 \<rparr>,
           \<lparr> deltaTime = Fin 0, body = NoteOff 0 60 0 \<rparr>],
          []] \<rparr>"


section \<open>Basic facts\<close>

lemma length_toMsTracks: "length (toMsTracks oldTpq rate trks) = length trks"
  by (induction trks arbitrary: rate) (auto split: prod.splits)

text \<open>A property of the entries of a dictionary, under lookup and update.\<close>

lemma list_all_map_of_key:
  "list_all (\<lambda>kv. P (fst kv) (snd kv)) al \<Longrightarrow> map_of al k = Some v \<Longrightarrow> P k v"
  by (induction al) (auto split: if_splits)

lemma list_all_update_key:
  "list_all (\<lambda>kv. P (fst kv) (snd kv)) al \<Longrightarrow> P k v \<Longrightarrow>
   list_all (\<lambda>kv. P (fst kv) (snd kv)) (AList.update k v al)"
  by (induction al) auto

lemma list_all_map_of:
  "list_all (\<lambda>kv. P (snd kv)) al \<Longrightarrow> map_of al k = Some v \<Longrightarrow> P v"
  by (rule list_all_map_of_key[where P = "\<lambda>k. P"])

lemma list_all_update:
  "list_all (\<lambda>kv. P (snd kv)) al \<Longrightarrow> P v \<Longrightarrow> list_all (\<lambda>kv. P (snd kv)) (AList.update k v al)"
  by (rule list_all_update_key[where P = "\<lambda>k. P"])


section \<open>Properties of the Time Rebaser\<close>

lemma toMsEvents_spec:
  "toMsEvents oldTpq rate ms prev evs =
     (spec_emit prev (filter (\<lambda>ep. \<not> isTempo (fst ep)) (zip evs (spec_msSoFar oldTpq rate ms evs))),
      foldl (spec_nextRate oldTpq) rate evs)"
proof (induction evs arbitrary: rate ms prev)
  case Nil
  show ?case by simp
next
  case (Cons e es)
  show ?case
  proof (cases "body e")
    case (SetTempo us)
    then show ?thesis by (simp add: Cons.IH Let_def spec_nextRate_def)
  qed (simp_all add: Cons.IH Let_def spec_nextRate_def)
qed

lemma body_spec_emit: "map body (spec_emit prev eps) = map (\<lambda>ep. body (fst ep)) eps"
  by (induction prev eps rule: spec_emit.induct) simp_all

lemma spec_rebased_no_tempo: "\<not> list_ex isTempo (spec_rebased oldTimeBase msPerTick track)"
proof -
  have "\<forall>b \<in> set (map body (spec_rebased oldTimeBase msPerTick track)).
          (case b of SetTempo us \<Rightarrow> False | _ \<Rightarrow> True)"
    unfolding spec_rebased_def body_spec_emit by (auto split: body.splits)
  then show ?thesis by (auto simp: list_ex_iff split: body.splits)
qed

lemma toMsTracks_spec:
  "i < length trks \<Longrightarrow>
   toMsTracks oldTpq rate trks ! i =
     tempoReset # spec_rebased oldTpq (foldl (spec_nextRate oldTpq) rate (concat (take i trks)))
                    (trks ! i)"
proof (induction trks arbitrary: rate i)
  case Nil
  then show ?case by simp
next
  case (Cons t ts)
  show ?case
  proof (cases i)
    case 0
    then show ?thesis by (simp add: toMsEvents_spec spec_rebased_def)
  next
    case (Suc j)
    with Cons.prems have "j < length ts" by simp
    from Cons.IH[OF this] Suc show ?thesis by (simp add: toMsEvents_spec)
  qed
qed

text \<open>
  C7. For every opus, \<open>toMs\<close> gives one track for each track; each begins with the
  synthetic tempo reset and holds no tempo change after it; and the events after it are
  the source events that are not tempo changes, each with the delta
  \<open>round(msSoFar - previousMsSoFar)\<close>, where \<open>msSoFar\<close> has been advanced by the delta
  of every source event, the tempo changes included, and \<open>previousMsSoFar\<close> is the
  position of the event emitted before. So the time a tempo change covers is part of the
  delta of the next event that is emitted.
\<close>

theorem tempo_events_consumed_time_kept:
  "length (tracks (toMs (Some opus))) = length (tracks opus)
   \<and> (\<forall>i < length (tracks opus).
        tracks (toMs (Some opus)) ! i =
          tempoReset # spec_rebased (tpq opus)
             (foldl (spec_nextRate (tpq opus)) (jdiv (Fin 1000) (jround (tpq opus)))
                (concat (take i (tracks opus))))
             (tracks opus ! i)
        \<and> \<not> list_ex isTempo (tl (tracks (toMs (Some opus)) ! i)))"
proof (intro conjI allI impI)
  show "length (tracks (toMs (Some opus))) = length (tracks opus)"
    by (simp add: length_toMsTracks)
next
  fix i
  assume i: "i < length (tracks opus)"
  from toMsTracks_spec[OF i]
  show track: "tracks (toMs (Some opus)) ! i =
          tempoReset # spec_rebased (tpq opus)
             (foldl (spec_nextRate (tpq opus)) (jdiv (Fin 1000) (jround (tpq opus)))
                (concat (take i (tracks opus))))
             (tracks opus ! i)"
    by simp
  show "\<not> list_ex isTempo (tl (tracks (toMs (Some opus)) ! i))"
    unfolding track by (simp add: spec_rebased_no_tempo)
qed

theorem tempo_events_consumed_time_kept_witness:
  "(0::nat) < length (tracks \<lparr> tpq = Fin 100,
        tracks = [[\<lparr> deltaTime = Fin 100, body = SetTempo (Fin 500000) \<rparr>,
                   \<lparr> deltaTime = Fin 100, body = NoteOn 0 60 64 \<rparr>]] \<rparr>)
   \<and> tracks (toMs (Some \<lparr> tpq = Fin 100,
        tracks = [[\<lparr> deltaTime = Fin 100, body = SetTempo (Fin 500000) \<rparr>,
                   \<lparr> deltaTime = Fin 100, body = NoteOn 0 60 64 \<rparr>]] \<rparr>)) ! 0
       = [tempoReset, \<lparr> deltaTime = Fin 1500, body = NoteOn 0 60 64 \<rparr>]"
proof -
  define opus :: Opus where "opus = \<lparr> tpq = Fin 100,
        tracks = [[\<lparr> deltaTime = Fin 100, body = SetTempo (Fin 500000) \<rparr>,
                   \<lparr> deltaTime = Fin 100, body = NoteOn 0 60 64 \<rparr>]] \<rparr>"
  have len: "0 < length (tracks opus)" by (simp add: opus_def)
  have spec: "tempoReset # spec_rebased (tpq opus)
             (foldl (spec_nextRate (tpq opus)) (jdiv (Fin 1000) (jround (tpq opus)))
                (concat (take 0 (tracks opus))))
             (tracks opus ! 0)
          = [tempoReset, \<lparr> deltaTime = Fin 1500, body = NoteOn 0 60 64 \<rparr>]"
    unfolding opus_def by code_simp
  from tempo_events_consumed_time_kept [of opus] len
  have "tracks (toMs (Some opus)) ! 0 =
          tempoReset # spec_rebased (tpq opus)
             (foldl (spec_nextRate (tpq opus)) (jdiv (Fin 1000) (jround (tpq opus)))
                (concat (take 0 (tracks opus))))
             (tracks opus ! 0)"
    by blast
  with spec have "tracks (toMs (Some opus)) ! 0
                    = [tempoReset, \<lparr> deltaTime = Fin 1500, body = NoteOn 0 60 64 \<rparr>]"
    by simp
  with len show ?thesis unfolding opus_def by blast
qed


section \<open>Properties of the Note Pairer\<close>

lemma unclosed_id: "deltaTime event = Fin 0 \<Longrightarrow> unclosed event = event"
  by (simp add: unclosed_def)




lemma wfQueues_frame [simp]:
  "wfQueues (s\<lparr>scoreTrack := t\<rparr>) = wfQueues s"
  "wfQueues (s\<lparr>ticksSoFar := p\<rparr>) = wfQueues s"
  by (simp_all add: wfQueues_def)

lemma queueOf_frame [simp]:
  "queueOf (s\<lparr>scoreTrack := t\<rparr>) k = queueOf s k"
  "queueOf (s\<lparr>ticksSoFar := p\<rparr>) k = queueOf s k"
  by (simp_all add: queueOf_def)

lemma hasKey_deltaTime [simp]: "hasKey k (event\<lparr>deltaTime := d\<rparr>) = hasKey k event"
  by (simp add: hasKey_def)













subsection \<open>The number of notes emitted\<close>

lemma sum_update_present:
  "distinct (map fst al) \<Longrightarrow> map_of al k = Some q \<Longrightarrow>
   sum_list (map (\<lambda>kv. length (snd kv)) (AList.update k q' al)) + length q
     = sum_list (map (\<lambda>kv. length (snd kv)) al) + length q'"
  by (induction al) (auto split: if_splits)

lemma sum_update_absent:
  "map_of al k = None \<Longrightarrow>
   sum_list (map (\<lambda>kv. length (snd kv)) (AList.update k q' al))
     = sum_list (map (\<lambda>kv. length (snd kv)) al) + length q'"
  by (induction al) (auto split: if_splits)

lemma condition_deltaTime [simp]: "condition (event\<lparr>deltaTime := d\<rparr>) = condition event"
  by (simp add: condition_def)

lemma closeNote_count:
  assumes inv: "notesOnly s" and run: "closeNote key s = Inr s'"
  shows "notesOnly s' \<and> ticksSoFar s' = ticksSoFar s
       \<and> length (filter condition (scoreTrack s')) + pendingCount s'
           = length (filter condition (scoreTrack s)) + pendingCount s"
proof (cases "map_of (channelPitchToNoteOnEvents s) key")
  case None
  with run have "s' = s" by (simp add: closeNote_def)
  with inv show ?thesis by simp
next
  case (Some queue)
  with run obtain n ns where q: "queue = n # ns" by (cases queue) (auto simp: closeNote_def)
  from run Some q have s': "s' = s\<lparr> scoreTrack := scoreTrack s @
                     [n\<lparr>deltaTime := jsub (ticksSoFar s) (toNumber (begin_tick n))\<rparr>],
                   channelPitchToNoteOnEvents :=
                     AList.update key ns (channelPitchToNoteOnEvents s) \<rparr>"
    by (simp add: closeNote_def)
  from inv have dist: "distinct (map fst (channelPitchToNoteOnEvents s))"
    and qnotes: "list_all (\<lambda>kv. list_all condition (snd kv)) (channelPitchToNoteOnEvents s)"
    by (simp_all add: notesOnly_def)
  from Some q have "map_of (channelPitchToNoteOnEvents s) key = Some (n # ns)" by simp
  from list_all_map_of[OF qnotes this] have nq: "condition n" "list_all condition ns"
    by simp_all
  have inv': "notesOnly s'"
    unfolding notesOnly_def s' using dist list_all_update[OF qnotes nq(2)]
    by (simp add: distinct_update)
  from sum_update_present[OF dist, of key "n # ns" ns] Some q
  have "pendingCount s' + Suc (length ns) = pendingCount s + length ns"
    by (simp add: pendingCount_def s')
  then have "pendingCount s = Suc (pendingCount s')" by simp
  moreover have "length (filter condition (scoreTrack s'))
                   = Suc (length (filter condition (scoreTrack s)))"
    using nq(1) by (simp add: s')
  ultimately show ?thesis using inv' by (simp add: s')
qed

lemma openNote_count:
  assumes inv: "notesOnly s"
  shows "notesOnly (openNote cha pitch vel s)
       \<and> ticksSoFar (openNote cha pitch vel s) = ticksSoFar s
       \<and> scoreTrack (openNote cha pitch vel s) = scoreTrack s
       \<and> pendingCount (openNote cha pitch vel s) = Suc (pendingCount s)"
proof -
  define new :: ScoreEvent where
    "new = \<lparr> deltaTime = Fin 0, body = Note cha pitch vel, begin_tick = Some (ticksSoFar s) \<rparr>"
  from inv have dist: "distinct (map fst (channelPitchToNoteOnEvents s))"
    and qnotes: "list_all (\<lambda>kv. list_all condition (snd kv)) (channelPitchToNoteOnEvents s)"
    by (simp_all add: notesOnly_def)
  have cn: "condition new" by (simp add: new_def condition_def)
  show ?thesis
  proof (cases "map_of (channelPitchToNoteOnEvents s) (noteKey cha pitch)")
    case None
    then have s': "openNote cha pitch vel s = s\<lparr>channelPitchToNoteOnEvents :=
        AList.update (noteKey cha pitch) [new] (channelPitchToNoteOnEvents s)\<rparr>"
      by (simp add: openNote_def Let_def new_def)
    have "list_all condition [new]" using cn by (simp)
    from list_all_update[OF qnotes this] dist have "notesOnly (openNote cha pitch vel s)"
      by (simp add: s' notesOnly_def distinct_update)
    moreover from sum_update_absent[OF None, of "[new]"]
    have "pendingCount (openNote cha pitch vel s) = Suc (pendingCount s)"
      by (simp add: s' pendingCount_def)
    ultimately show ?thesis by (simp add: s')
  next
    case (Some queue)
    then have s': "openNote cha pitch vel s = s\<lparr>channelPitchToNoteOnEvents :=
        AList.update (noteKey cha pitch) (queue @ [new]) (channelPitchToNoteOnEvents s)\<rparr>"
      by (simp add: openNote_def Let_def new_def)
    from list_all_map_of[OF qnotes Some] cn have "list_all condition (queue @ [new])"
      by (simp)
    from list_all_update[OF qnotes this] dist have "notesOnly (openNote cha pitch vel s)"
      by (simp add: s' notesOnly_def distinct_update)
    moreover from sum_update_present[OF dist Some, of "queue @ [new]"]
    have "pendingCount (openNote cha pitch vel s) = Suc (pendingCount s)"
      by (simp add: s' pendingCount_def)
    ultimately show ?thesis by (simp add: s')
  qed
qed

lemma notesOnly_frame [simp]:
  "notesOnly (s\<lparr>scoreTrack := t\<rparr>) = notesOnly s"
  "notesOnly (s\<lparr>ticksSoFar := p\<rparr>) = notesOnly s"
  by (simp_all add: notesOnly_def)

lemma pendingCount_frame [simp]:
  "pendingCount (s\<lparr>scoreTrack := t\<rparr>) = pendingCount s"
  "pendingCount (s\<lparr>ticksSoFar := p\<rparr>) = pendingCount s"
  by (simp_all add: pendingCount_def)

lemma pairEvent_count:
  assumes inv: "notesOnly s" and parsed: "fromParser e" and run: "pairEvent s e = Inr s'"
  shows "notesOnly s'
       \<and> length (filter condition (scoreTrack s')) + pendingCount s'
           = length (filter condition (scoreTrack s)) + pendingCount s
             + (if opens e then 1 else 0)"
proof -
  define s1 where "s1 = s\<lparr>ticksSoFar := jadd (ticksSoFar s) (deltaTime e)\<rparr>"
  have inv1: "notesOnly s1" using inv by (simp add: s1_def)
  have f1: "scoreTrack s1 = scoreTrack s" "pendingCount s1 = pendingCount s"
    by (simp_all add: s1_def)
  show ?thesis
  proof (cases "body e")
    case (NoteOn cha pitch vel)
    show ?thesis
    proof (cases "vel = 0")
      case True
      with run NoteOn have "closeNote (noteKey cha pitch) s1 = Inr s'"
        by (simp add: pairEvent_def s1_def)
      from closeNote_count[OF inv1 this] show ?thesis
        using NoteOn True by (simp add: f1 opens_def)
    next
      case False
      with run NoteOn have s': "s' = openNote cha pitch vel s1"
        by (simp add: pairEvent_def s1_def)
      from openNote_count[OF inv1, of cha pitch vel] show ?thesis
        using NoteOn False by (simp add: s' f1 opens_def)
    qed
  next
    case (NoteOff cha pitch vel)
    with run have "closeNote (noteKey cha pitch) s1 = Inr s'"
      by (simp add: pairEvent_def s1_def)
    from closeNote_count[OF inv1 this] show ?thesis
      using NoteOff by (simp add: f1 opens_def)
  next
    case (Note cha pitch vel)
    with parsed show ?thesis by (simp add: fromParser_def)
  next
    case (SetTempo us)
    with run have "s' = s1\<lparr> scoreTrack := scoreTrack s1 @
                       [\<lparr> deltaTime = deltaTime e, body = body e,
                          begin_tick = Some (ticksSoFar s1) \<rparr>] \<rparr>"
      by (simp add: pairEvent_def s1_def)
    then show ?thesis using SetTempo inv1 by (simp add: f1 opens_def condition_def)
  next
    case Other
    with run have "s' = s1\<lparr> scoreTrack := scoreTrack s1 @
                       [\<lparr> deltaTime = deltaTime e, body = body e,
                          begin_tick = Some (ticksSoFar s1) \<rparr>] \<rparr>"
      by (simp add: pairEvent_def s1_def)
    then show ?thesis using Other inv1 by (simp add: f1 opens_def condition_def)
  next
    case Absent
    with parsed show ?thesis by (simp add: fromParser_def)
  qed
qed

lemma pairEvents_count:
  "notesOnly s \<Longrightarrow> list_all fromParser evs \<Longrightarrow> pairEvents s evs = Inr s' \<Longrightarrow>
   notesOnly s'
   \<and> length (filter condition (scoreTrack s')) + pendingCount s'
       = length (filter condition (scoreTrack s)) + pendingCount s + length (filter opens evs)"
proof (induction evs arbitrary: s)
  case Nil
  then show ?case by simp
next
  case (Cons e es)
  from Cons.prems(3) obtain s1 where one: "pairEvent s e = Inr s1"
    and more: "pairEvents s1 es = Inr s'"
    by (auto split: sum.splits)
  from Cons.prems(2) have p: "fromParser e" "list_all fromParser es" by simp_all
  from pairEvent_count[OF Cons.prems(1) p(1) one]
  have inv1: "notesOnly s1"
    and c1: "length (filter condition (scoreTrack s1)) + pendingCount s1
           = length (filter condition (scoreTrack s)) + pendingCount s
             + (if opens e then 1 else 0)"
    by blast+
  from Cons.IH[OF inv1 p(2) more] c1 show ?case by simp
qed

lemma sum_insort_key:
  "sum_list (map f (insort_key k x xs)) = (f x + sum_list (map f xs) :: nat)"
  by (induction xs) simp_all

lemma sum_sort_key: "sum_list (map f (sort_key k xs)) = (sum_list (map f xs) :: nat)"
  by (induction xs) (simp_all add: sum_insort_key)

lemma sum_filter_split:
  "sum_list (map f (filter P xs)) + sum_list (map f (filter (\<lambda>x. \<not> P x) xs))
     = (sum_list (map f xs) :: nat)"
  by (induction xs) simp_all

lemma set_forInOrder: "set (forInOrder d) = set d"
  by (auto simp: forInOrder_def)

lemma length_unterminated: "length (unterminated s) = pendingCount s"
proof -
  have "length (concat (map snd (forInOrder (channelPitchToNoteOnEvents s))))
          = sum_list (map (\<lambda>kv. length (snd kv)) (forInOrder (channelPitchToNoteOnEvents s)))"
    by (simp add: length_concat comp_def)
  also have "\<dots> = pendingCount s"
    unfolding forInOrder_def pendingCount_def
    by (simp add: sum_sort_key sum_filter_split)
  finally show ?thesis by (simp add: unterminated_def)
qed

lemma unterminated_notes:
  assumes "notesOnly s"
  shows "list_all condition (unterminated s)"
proof -
  from assms have "\<forall>kv \<in> set (channelPitchToNoteOnEvents s). \<forall>ev \<in> set (snd kv). condition ev"
    by (simp add: notesOnly_def list_all_iff)
  then have "\<forall>ev \<in> set (concat (map snd (forInOrder (channelPitchToNoteOnEvents s)))). condition ev"
    by (auto simp: set_forInOrder)
  then show ?thesis
    by (simp add: unterminated_def list_all_iff)
qed

text \<open>
  Where the Note Pairer does not fail, it emits one note for every note-on with a
  velocity other than 0, and an unterminated note lasts until the last position of the
  track.
\<close>

lemma pairTrack_note_count:
  assumes parsed: "list_all fromParser evs" and run: "pairTrack evs = Inr out"
  shows "length (filter condition out) = length (filter opens evs)"
proof -
  from run obtain s where s: "pairEvents newPairer evs = Inr s"
    and out: "out = scoreTrack s @ unterminated s"
    by (auto simp: pairTrack_def split: sum.splits)
  have inv0: "notesOnly newPairer" by (simp add: notesOnly_def newPairer_def)
  from pairEvents_count[OF inv0 parsed s]
  have inv: "notesOnly s"
    and c: "length (filter condition (scoreTrack s)) + pendingCount s = length (filter opens evs)"
    by (simp_all add: newPairer_def pendingCount_def)
  from unterminated_notes[OF inv] have "filter condition (unterminated s) = unterminated s"
    by (simp add: list_all_iff)
  then show ?thesis using c by (simp add: out length_unterminated)
qed

lemma unterminated_duration:
  "event \<in> set (unterminated s) \<Longrightarrow>
   deltaTime event = jsub (ticksSoFar s) (toNumber (begin_tick event))"
  by (auto simp: unterminated_def)


text \<open>
  C3, where the code fails. A note-off for a key whose queue has been emptied finds the
  empty array, which is truthy; \<open>shift()\<close> gives \<open>undefined\<close> and the assignment to
  its \<open>deltaTime\<close> throws. On the track note-on, note-off, note-off the Note Pairer
  emits no track at all, so the number of notes it emits is not the number of note-ons.
\<close>

theorem repeated_note_off_fails:
  "pairTrack [\<lparr> deltaTime = Fin 0, body = NoteOn 0 60 64 \<rparr>,
              \<lparr> deltaTime = Fin 480, body = NoteOff 0 60 0 \<rparr>,
              \<lparr> deltaTime = Fin 0, body = NoteOff 0 60 0 \<rparr>] = Inl TypeError
   \<and> midi2scoreNoTick (header repeatedOff) (midiTracks repeatedOff) = Inl TypeError
   \<and> toPiano (newPianoConverter noOptions) repeatedOff = Inl TypeError"
  by code_simp


section \<open>The conversion on fewer than two tracks\<close>


lemma few_tracks_empty_score:
  assumes "length trks < 2"
  shows "midi2scoreNoTick hdr trks = Inr \<lparr> tpq = Fin 1000, tracks = [] \<rparr>"
  using assms by (simp add: midi2scoreNoTick_def opus2score_def midi2opus_def length_toMsTracks)

lemma few_tracks_mergedScore:
  assumes "length (midiTracks midi) < 2"
  shows "mergedScore midi =
           Inr \<lparr> tpq = Fin 1000,
                 tracks = [[\<lparr> deltaTime = Fin 1000, body = Absent, begin_tick = None \<rparr>]] \<rparr>"
  unfolding mergedScore_def few_tracks_empty_score[OF assms]
  by (simp add: bind_def filterEventsFromScore_def filterEmptyTracks_def mergeEvents_def
      sortScoreByEventTimes_def sortTrack_def convertIntoSecondsPerTicks_def newLastEvent_def)

lemma stub_render_fails:
  "bind (performRoundation (newPianoConverter noOptions)
           \<lparr> tpq = Fin 1000,
             tracks = [[\<lparr> deltaTime = Fin 1000, body = Absent, begin_tick = None \<rparr>]] \<rparr>)
     (\<lambda>roundedScore.
       (let mostFrequentDur = obtainCommonDuration roundedScore;
            reducedScore = reduceScoreToChords roundedScore
        in bind (obtainSheetMusic (newPianoConverter noOptions) reducedScore mostFrequentDur)
             (\<lambda>sheetMusic.
           bind (explodeSheetMusic (newPianoConverter noOptions) sheetMusic) (\<lambda>splitMusic.
             Inr (finalizeSheetMusic (newPianoConverter noOptions) splitMusic mostFrequentDur)))))
   = Inl TypeError"
  by code_simp

text \<open>
  C1. With fewer than two tracks \<open>opus2score\<close> returns the empty score, as the claim
  says. The conversion then fails all the same: \<open>mergeEvents\<close> makes one empty track
  of the empty score, \<open>convertIntoSecondsPerTicks\<close> appends to it a last event built
  from \<open>undefined\<close>, and \<open>notenum2string\<close> throws a \<open>TypeError\<close> on its missing
  pitch. With the default configuration \<open>toPiano\<close> returns no header line.
\<close>

theorem toPiano_few_tracks_fails:
  assumes "length (midiTracks midi) < 2"
  shows "midi2scoreNoTick (header midi) (midiTracks midi) = Inr \<lparr> tpq = Fin 1000, tracks = [] \<rparr>
       \<and> toPiano (newPianoConverter noOptions) midi = Inl TypeError"
proof -
  have "toPiano (newPianoConverter noOptions) midi = Inl TypeError"
    unfolding toPiano_def few_tracks_mergedScore[OF assms]
    using stub_render_fails by (simp add: bind_def)
  with few_tracks_empty_score[OF assms] show ?thesis by simp
qed

theorem toPiano_few_tracks_fails_witness:
  "length (midiTracks \<lparr> header = \<lparr> ticksPerBeat = Some 480, ticksPerFrame = None \<rparr>,
                         midiTracks = [] \<rparr>) < 2
   \<and> toPiano (newPianoConverter noOptions)
        \<lparr> header = \<lparr> ticksPerBeat = Some 480, ticksPerFrame = None \<rparr>, midiTracks = [] \<rparr>
       = Inl TypeError"
  using toPiano_few_tracks_fails
    [of "\<lparr> header = \<lparr> ticksPerBeat = Some 480, ticksPerFrame = None \<rparr>, midiTracks = [] \<rparr>"]
  by simp


section \<open>The middle-C scenario\<close>

text \<open>
  C4, as the code has it. For the two-track input whose first track holds one middle-C
  note-on and note-off 480 ticks apart, at 480 ticks per beat and with no tempo event:
  the Time Rebaser turns the 480-tick gap into 1000 ms (the default tempo is 1000000
  microseconds per beat); the Quantizer gives the single event, which is the last one,
  the fixed duration of 1000 ms, which the quantum 50 leaves at 1000; that is the
  dominant duration; and the output is \<open>BPM: 60\<close>, a line break and \<open>C5\<close>, the trailing
  terminator stripped. The Note Pairer gives the note the duration 1000, which no later
  stage reads: with the note-off after 240 ticks the output is the same. It is the same
  again when the note is in the second track and the first is empty.
\<close>

theorem middleC_scenario:
  "toMs (Some (midi2opus (header middleC) (midiTracks middleC))) =
     \<lparr> tpq = Fin 1000,
       tracks = [[tempoReset,
                  \<lparr> deltaTime = Fin 0, body = NoteOn 0 60 64 \<rparr>,
                  \<lparr> deltaTime = Fin 1000, body = NoteOff 0 60 64 \<rparr>],
                 [tempoReset]] \<rparr>
   \<and> midi2scoreNoTick (header middleC) (midiTracks middleC) =
       Inr \<lparr> tpq = Fin 1000,
             tracks = [[\<lparr> deltaTime = Fin 0, body = SetTempo (Fin 1000000),
                          begin_tick = Some (Fin 0) \<rparr>,
                        \<lparr> deltaTime = Fin 1000, body = Note 0 60 64,
                          begin_tick = Some (Fin 0) \<rparr>],
                       [\<lparr> deltaTime = Fin 0, body = SetTempo (Fin 1000000),
                          begin_tick = Some (Fin 0) \<rparr>]] \<rparr>
   \<and> mergedScore middleC =
       Inr \<lparr> tpq = Fin 1000,
             tracks = [[\<lparr> deltaTime = Fin 1000, body = Note 0 60 64,
                          begin_tick = Some (Fin 0) \<rparr>]] \<rparr>
   \<and> timeQuanta (newPianoConverter noOptions) = Fin 50
   \<and> performRoundation (newPianoConverter noOptions)
         \<lparr> tpq = Fin 1000,
           tracks = [[\<lparr> deltaTime = Fin 1000, body = Note 0 60 64,
                        begin_tick = Some (Fin 0) \<rparr>]] \<rparr>
       = Inr [(Fin 1000, Some 60)]
   \<and> obtainCommonDuration [(Fin 1000, Some 60)] = Some (Fin 1000)
   \<and> toPiano (newPianoConverter noOptions) middleC = Inr ''BPM: 60\<newline>C5''
   \<and> toPiano (newPianoConverter noOptions)
         (middleC\<lparr>midiTracks :=
            [[\<lparr> deltaTime = Fin 0, body = NoteOn 0 60 64 \<rparr>,
              \<lparr> deltaTime = Fin 240, body = NoteOff 0 60 64 \<rparr>],
             []]\<rparr>)
       = Inr ''BPM: 60\<newline>C5''
   \<and> toPiano (newPianoConverter noOptions)
         (middleC\<lparr>midiTracks :=
            [[],
             [\<lparr> deltaTime = Fin 0, body = NoteOn 0 60 64 \<rparr>,
              \<lparr> deltaTime = Fin 480, body = NoteOff 0 60 64 \<rparr>]]\<rparr>)
       = Inr ''BPM: 60\<newline>C5''"
  by code_simp

text \<open>The gap is not 500 ms and the output is not the text of the claim.\<close>

theorem middleC_scenario_counterexample:
  "deltaTime (tracks (toMs (Some (midi2opus (header middleC) (midiTracks middleC)))) ! 0 ! 2)
     \<noteq> Fin 500
   \<and> toPiano (newPianoConverter noOptions) middleC \<noteq> Inr ''BPM: 120\<newline>C,''
   \<and> toPiano (newPianoConverter noOptions) middleC \<noteq> Inr ''BPM: 120\<newline>C5,''"
  by code_simp


section \<open>Finite times\<close>















lemma finiteBegin_deltaTime [simp]: "finiteBegin (event\<lparr>deltaTime := d\<rparr>) = finiteBegin event"
  by (simp add: finiteBegin_def)














section \<open>Properties of the Quantizer\<close>








text \<open>\<open>uniq\<close> lists the values in the order of their first occurrence.\<close>

lemma uniq_Cons: "uniq (x # xs) = x # filter (\<lambda>y. y \<noteq> x) (uniq xs)"
proof -
  have "remdups (ys @ [x]) = filter (\<lambda>y. y \<noteq> x) (remdups ys) @ [x]" for ys
    by (induction ys) auto
  then show ?thesis by (simp add: uniq_def rev_filter)
qed

lemma set_uniq: "set (uniq xs) = set xs"
  by (simp add: uniq_def)

lemma distinct_uniq: "distinct (uniq xs)"
  by (simp add: uniq_def)

lemma uniq_split:
  "d \<in> set xs \<Longrightarrow> \<exists>rest. uniq xs = uniq (takeWhile (\<lambda>x. x \<noteq> d) xs) @ d # rest"
proof (induction xs)
  case Nil
  then show ?case by simp
next
  case (Cons x xs)
  show ?case
  proof (cases "x = d")
    case True
    then show ?thesis by (simp add: uniq_Cons) (simp add: uniq_def)
  next
    case False
    with Cons.prems have "d \<in> set xs" by simp
    then obtain rest where r: "uniq xs = uniq (takeWhile (\<lambda>x. x \<noteq> d) xs) @ d # rest"
      using Cons.IH by blast
    have "uniq (x # xs) = x # filter (\<lambda>y. y \<noteq> x) (uniq (takeWhile (\<lambda>x. x \<noteq> d) xs) @ d # rest)"
      by (simp only: uniq_Cons r)
    also have "\<dots> = uniq (x # takeWhile (\<lambda>x. x \<noteq> d) xs) @ d # filter (\<lambda>y. y \<noteq> x) rest"
      using False by (simp add: uniq_Cons)
    finally show ?thesis using False by simp
  qed
qed

lemma indexOf_Some:
  "indexOf xs v = Some i \<Longrightarrow> i < length xs \<and> xs ! i = v \<and> (\<forall>j<i. xs ! j \<noteq> v)"
proof (induction xs arbitrary: i)
  case Nil
  then show ?case by simp
next
  case (Cons x xs)
  show ?case
  proof (cases "x = v")
    case True
    with Cons.prems show ?thesis by simp
  next
    case False
    with Cons.prems obtain i' where i': "indexOf xs v = Some i'" "i = Suc i'" by auto
    from Cons.IH[OF i'(1)] False i'(2) show ?thesis
      by (auto simp: nth_Cons split: nat.splits)
  qed
qed

lemma indexOf_mem: "v \<in> set xs \<Longrightarrow> \<exists>i. indexOf xs v = Some i"
  by (induction xs) auto

lemma takeWhile_filter_first:
  "Q d \<Longrightarrow> takeWhile (\<lambda>x. x \<noteq> d) (filter Q xs) = filter Q (takeWhile (\<lambda>x. x \<noteq> d) xs)"
  by (induction xs) auto

lemma count_list_filter_other:
  "P e \<Longrightarrow> length (filter (\<lambda>d. d = e) (filter P xs)) = count_list xs e"
  by (induction xs) auto

lemma jseq_zero: "jseq x (Fin 0) = (x = Fin 0)"
  by (auto simp: jseq_def)

text \<open>
  C6. On a quantized note sequence with at least one nonzero duration (and no \<open>NaN\<close>
  duration), \<open>obtainCommonDuration\<close> returns a duration \<open>d\<close> of the sequence
  that is not 0, that occurs at least as often as every other nonzero duration, and
  that occurs strictly more often than every nonzero duration met before the first
  occurrence of \<open>d\<close>: among the most frequent values the first encountered wins.
\<close>

theorem obtainCommonDuration_most_frequent:
  assumes nonzero: "d0 \<in> fst ` set score" "d0 \<noteq> Fin 0"
    and nonan: "NaN \<notin> fst ` set score"
  shows "\<exists>d. obtainCommonDuration score = Some d \<and> d \<noteq> Fin 0 \<and> d \<in> fst ` set score
     \<and> (\<forall>e. e \<noteq> Fin 0 \<longrightarrow> count_list (map fst score) e \<le> count_list (map fst score) d)
     \<and> (\<forall>e \<in> set (takeWhile (\<lambda>x. x \<noteq> d) (map fst score)).
           e \<noteq> Fin 0 \<longrightarrow> count_list (map fst score) e < count_list (map fst score) d)"
proof -
  define ds0 where "ds0 = map fst score"
  define ds where "ds = filter (\<lambda>dur. \<not> jseq dur (Fin 0)) ds0"
  define us where "us = uniq ds"
  define f where "f = (\<lambda>dur. length (filter (\<lambda>d. jseq d dur) ds))"
  define counts where "counts = map f us"
  have ds_set: "set ds = {x \<in> set ds0. x \<noteq> Fin 0}"
    by (auto simp: ds_def jseq_zero)
  have nan0: "NaN \<notin> set ds0" using nonan by (simp add: ds0_def)
  have f_count: "f e = count_list ds0 e" if "e \<noteq> Fin 0" "e \<noteq> NaN" for e
  proof -
    have "jseq x e = (x = e)" for x using that by (auto simp: jseq_def)
    then have "f e = length (filter (\<lambda>d. d = e) (filter (\<lambda>dur. dur \<noteq> Fin 0) ds0))"
      by (simp add: f_def ds_def jseq_zero)
    also have "\<dots> = count_list ds0 e" using that(1) by (rule count_list_filter_other)
    finally show ?thesis .
  qed
  have "d0 \<in> set ds" using nonzero by (simp add: ds_set ds0_def)
  then have us_ne: "us \<noteq> []" using set_uniq[of ds] by (auto simp: us_def)
  then obtain n ns where cs: "counts = n # ns" by (cases us) (auto simp: counts_def)
  define M where "M = fold max ns n"
  have M_Max: "M = Max (set counts)" unfolding M_def cs by (rule Max.set_eq_fold[symmetric])
  have "M \<in> set counts" unfolding M_Max using cs by (intro Max_in) auto
  then have "\<exists>i. indexOf counts M = Some i" by (rule indexOf_mem)
  then obtain i where i: "indexOf counts M = Some i" ..
  have len: "length counts = length us" by (simp add: counts_def)
  have nth_counts: "counts ! j = f (us ! j)" if "j < length us" for j
    using that by (simp add: counts_def)
  from indexOf_Some[OF i] have a: "i < length counts" and b: "counts ! i = M"
    and c: "\<forall>j<i. counts ! j \<noteq> M"
    by blast+
  have i_lt: "i < length us" using a len by simp
  have f_i: "f (us ! i) = M" using b nth_counts[OF i_lt] by simp
  have first: "f (us ! j) \<noteq> M" if "j < i" for j
  proof -
    from that i_lt have jl: "j < length us" by simp
    from c that have "counts ! j \<noteq> M" by blast
    then show ?thesis unfolding nth_counts[OF jl] .
  qed
  define d where "d = us ! i"
  have "obtainCommonDuration score =
      (case counts of [] \<Rightarrow> None
       | n # ns \<Rightarrow> (case indexOf counts (fold max ns n) of None \<Rightarrow> None
                     | Some i \<Rightarrow> Some (us ! i)))"
    unfolding obtainCommonDuration_def Let_def counts_def f_def us_def ds_def ds0_def
    by (rule refl)
  moreover have "indexOf (n # ns) (fold max ns n) = Some i"
    using i unfolding cs M_def .
  ultimately have res: "obtainCommonDuration score = Some d"
    by (simp add: cs d_def)
  have d_us: "d \<in> set us" using i_lt by (simp add: d_def)
  then have d_ds: "d \<in> set ds" by (simp add: us_def set_uniq)
  then have d_nz: "d \<noteq> Fin 0" and d_ds0: "d \<in> set ds0" by (auto simp: ds_set)
  have d_nn: "d \<noteq> NaN" using d_ds0 nan0 by auto
  have fd: "f d = count_list ds0 d" using d_nz d_nn by (rule f_count)
  have le_M: "f e \<le> M" if "e \<in> set us" for e
    unfolding M_Max using that by (intro Max_ge) (auto simp: counts_def)
  have most: "count_list ds0 e \<le> count_list ds0 d" if "e \<noteq> Fin 0" for e
  proof (cases "e \<in> set ds0")
    case True
    then have "e \<in> set us" "e \<noteq> NaN" using that nan0 by (auto simp: us_def set_uniq ds_set)
    then show ?thesis using le_M[of e] f_count[OF that] fd f_i by (simp add: d_def)
  next
    case False
    then show ?thesis by (simp add: count_list_0_iff)
  qed
  have tie: "count_list ds0 e < count_list ds0 d"
    if e_tw: "e \<in> set (takeWhile (\<lambda>x. x \<noteq> d) ds0)" and e_nz: "e \<noteq> Fin 0" for e
  proof -
    have "\<not> jseq d (Fin 0)" using d_nz by (simp add: jseq_zero)
    then have tw: "takeWhile (\<lambda>x. x \<noteq> d) ds = filter (\<lambda>dur. \<not> jseq dur (Fin 0)) (takeWhile (\<lambda>x. x \<noteq> d) ds0)"
      unfolding ds_def by (rule takeWhile_filter_first)
    have e_in: "e \<in> set (uniq (takeWhile (\<lambda>x. x \<noteq> d) ds))"
      using e_tw e_nz by (simp add: set_uniq tw jseq_zero)
    obtain rest where split: "us = uniq (takeWhile (\<lambda>x. x \<noteq> d) ds) @ d # rest"
      using uniq_split[OF d_ds] by (auto simp: us_def)
    define pre where "pre = uniq (takeWhile (\<lambda>x. x \<noteq> d) ds)"
    have us_eq: "us = pre @ d # rest" using split by (simp add: pre_def)
    have dist: "distinct us" by (simp add: us_def distinct_uniq)
    have "us ! length pre = d" by (simp add: us_eq)
    moreover have "length pre < length us" by (simp add: us_eq)
    ultimately have i_eq: "i = length pre"
      using dist i_lt by (simp add: d_def nth_eq_iff_index_eq)
    from e_in obtain j where j: "j < length pre" "pre ! j = e"
      by (auto simp: pre_def in_set_conv_nth)
    then have "us ! j = e" by (simp add: us_eq nth_append)
    with first[of j] j(1) i_eq have "f e \<noteq> M" by simp
    moreover have "e \<in> set us" using e_in by (auto simp: us_eq pre_def)
    ultimately have "f e < M" using le_M[of e] by simp
    moreover have "e \<noteq> NaN" using e_tw nan0 by (auto dest: set_takeWhileD)
    ultimately show ?thesis using f_count[OF e_nz] fd f_i by (simp add: d_def)
  qed
  from res d_nz d_ds0 most tie show ?thesis
    unfolding ds0_def by (intro exI[of _ d]) auto
qed

theorem obtainCommonDuration_most_frequent_witness:
  "Fin 50 \<in> fst ` set [(Fin 50, Some 60), (Fin 0, Some 64), (Fin 100, Some 62),
                          (Fin 100, Some 65), (Fin 50, Some (67::int))]
   \<and> Fin 50 \<noteq> Fin 0
   \<and> NaN \<notin> fst ` set [(Fin 50, Some 60), (Fin 0, Some 64), (Fin 100, Some 62),
                            (Fin 100, Some 65), (Fin 50, Some (67::int))]
   \<and> obtainCommonDuration [(Fin 50, Some 60), (Fin 0, Some 64), (Fin 100, Some 62),
                             (Fin 100, Some 65), (Fin 50, Some 67)] = Some (Fin 50)
   \<and> count_list (map fst [(Fin 50, Some 60), (Fin 0, Some 64), (Fin 100, Some 62),
                             (Fin 100, Some 65), (Fin 50, Some (67::int))]) (Fin 100)
       \<le> count_list (map fst [(Fin 50, Some 60), (Fin 0, Some 64), (Fin 100, Some 62),
                             (Fin 100, Some 65), (Fin 50, Some (67::int))]) (Fin 50)"
proof -
  define sc where "sc = [(Fin 50, Some 60), (Fin 0, Some 64), (Fin 100, Some 62),
              (Fin 100, Some 65), (Fin 50, Some (67::int))]"
  have h1: "Fin 50 \<in> fst ` set sc" by (simp add: sc_def)
  have h2: "Fin 50 \<noteq> Fin 0" by simp
  have h3: "NaN \<notin> fst ` set sc" by (simp add: sc_def)
  have v: "obtainCommonDuration sc = Some (Fin 50)" unfolding sc_def by code_simp
  from obtainCommonDuration_most_frequent [OF h1 h2 h3]
  obtain d where d: "obtainCommonDuration sc = Some d"
    and m: "\<forall>e. e \<noteq> Fin 0 \<longrightarrow> count_list (map fst sc) e \<le> count_list (map fst sc) d"
    by blast
  from d v have "d = Fin 50" by simp
  with m have "count_list (map fst sc) (Fin 100) \<le> count_list (map fst sc) (Fin 50)"
    by simp
  with h1 h2 h3 v show ?thesis unfolding sc_def by blast
qed


section \<open>The Chord Reducer and \<open>tickLag\<close>\<close>






section \<open>Properties of the Notation Renderer\<close>

lemma octave_of_int:
  assumes "k \<noteq> 0"
  shows "jfloor (jdiv (jadd (ofInt p) (jmul (ofInt k) (ofInt t))) (ofInt k))
         = ofInt ((p + k * t) div k)"
proof -
  have h: "\<lfloor>(rat_of_int p + rat_of_int k * rat_of_int t) / rat_of_int k\<rfloor> = (p + k * t) div k"
    unfolding of_int_mult[symmetric] of_int_add[symmetric] by (rule floor_divide_of_int_eq)
  have "jfloor (jdiv (jadd (ofInt p) (jmul (ofInt k) (ofInt t))) (ofInt k))
        = Fin (of_int \<lfloor>(rat_of_int p + rat_of_int k * rat_of_int t) / rat_of_int k\<rfloor>)"
    using assms by (simp add: ofInt_def)
  then show ?thesis unfolding h by (simp only: ofInt_def)
qed

text \<open>
  C8. A pitch whose octave, computed as \<open>Math.floor(num / octaveKeys)\<close> after the shift
  by \<open>octaveKeys * octaveTranspose\<close>, is below 1 or above \<open>highestOctave\<close> renders as
  the empty string, raises no error, and leaves the accidental flags and the octave
  slots as they were passed in.
\<close>

theorem notenum2string_out_of_range:
  assumes "jlt (jfloor (jdiv (jadd num (jmul (ofInt (octaveKeys c)) (ofInt (octaveTranspose c))))
                 (ofInt (octaveKeys c)))) (Fin 1)
           \<or> jgt (jfloor (jdiv (jadd num (jmul (ofInt (octaveKeys c)) (ofInt (octaveTranspose c))))
                 (ofInt (octaveKeys c)))) (ofInt (highestOctave c))"
  shows "notenum2string c num accidentals octaves = Inr ([], accidentals, octaves)"
  using assms by (simp add: notenum2string_def Let_def)

theorem notenum2string_out_of_range_witness:
  "jgt (jfloor (jdiv (jadd (ofInt 109)
          (jmul (ofInt (octaveKeys (newPianoConverter noOptions)))
                (ofInt (octaveTranspose (newPianoConverter noOptions)))))
          (ofInt (octaveKeys (newPianoConverter noOptions)))))
       (ofInt (highestOctave (newPianoConverter noOptions)))
   \<and> notenum2string (newPianoConverter noOptions) (ofInt 109) [True, False] [Fin 3, Fin 4]
       = Inr ([], [True, False], [Fin 3, Fin 4])"
proof -
  have h: "jgt (jfloor (jdiv (jadd (ofInt 109)
          (jmul (ofInt (octaveKeys (newPianoConverter noOptions)))
                (ofInt (octaveTranspose (newPianoConverter noOptions)))))
          (ofInt (octaveKeys (newPianoConverter noOptions)))))
       (ofInt (highestOctave (newPianoConverter noOptions)))"
    by (simp add: newPianoConverter_def noOptions_def ofInt_def jgt_def)
  from h notenum2string_out_of_range [of "ofInt 109" "newPianoConverter noOptions", OF disjI2, OF h]
  show ?thesis by simp
qed

text \<open>The same for an integer pitch, with the octave in integer arithmetic.\<close>

lemma notenum2string_out_of_range_int:
  assumes "octaveKeys c \<noteq> 0"
    and "(pitch + octaveKeys c * octaveTranspose c) div octaveKeys c < 1
         \<or> highestOctave c < (pitch + octaveKeys c * octaveTranspose c) div octaveKeys c"
  shows "notenum2string c (ofInt pitch) accidentals octaves = Inr ([], accidentals, octaves)"
proof -
  let ?oct = "(pitch + octaveKeys c * octaveTranspose c) div octaveKeys c"
  have "jfloor (jdiv (jadd (ofInt pitch) (jmul (ofInt (octaveKeys c)) (ofInt (octaveTranspose c))))
          (ofInt (octaveKeys c))) = ofInt ?oct"
    using assms(1) by (rule octave_of_int)
  moreover have "jlt (ofInt ?oct) (Fin 1) \<or> jgt (ofInt ?oct) (ofInt (highestOctave c))"
    using assms(2) by (auto simp: ofInt_def jgt_def)
  ultimately show ?thesis by (simp add: notenum2string_def Let_def)
qed


text \<open>\<open>notenum2string\<close> on an integer pitch, with twelve keys per octave and no transposition.\<close>

lemma rem_of_int_12:
  assumes "0 \<le> n"
  shows "jrem (Fin (rat_of_int n)) (Fin 12) = Fin (rat_of_int (n mod 12))"
proof -
  have "\<lfloor>rat_of_int n / rat_of_int 12\<rfloor> = n div 12" by (rule floor_divide_of_int_eq)
  then have fl: "\<lfloor>rat_of_int n / 12\<rfloor> = n div 12" by simp
  have "0 \<le> rat_of_int n / 12" using assms by simp
  then have "trunc_rat (rat_of_int n / 12) = n div 12" by (simp add: trunc_rat_def fl)
  moreover have "rat_of_int n - 12 * rat_of_int (n div 12) = rat_of_int (n mod 12)"
  proof -
    have "n mod 12 = n - 12 * (n div 12)" by (simp add: minus_mult_div_eq_mod)
    then show ?thesis by simp
  qed
  ultimately show ?thesis by simp
qed

lemma nameIndexOf_of_int:
  "0 \<le> m \<Longrightarrow> m < 12 \<Longrightarrow> nameIndexOf (Fin (rat_of_int m)) = Some (nat m)"
  by (simp add: nameIndexOf_def)

lemma notenum2string_int:
  assumes "octaveKeys c = 12" "octaveTranspose c = 0"
  shows "notenum2string c (ofInt n) accidentals octaves =
     (if n div 12 < 1 \<or> highestOctave c < n div 12 then Inr ([], accidentals, octaves)
      else
        (let nameIndex = nat (n mod 12);
             octave = ofInt (n div 12);
             accidental = (length (names ! nameIndex) = 2);
             octaves1 = arraySet NaN octaves nameIndex octave;
             outputOctaves =
               (case correspondenceTable nameIndex of
                  Some j \<Rightarrow> arraySet NaN octaves1 j octave
                | None \<Rightarrow> octaves1);
             addN =
               (if accidental then False
                else case inclusionTable nameIndex of
                       Some j \<Rightarrow> (arrayGet accidentals j = Some True)
                     | None \<Rightarrow> False);
             outputAccidentals =
               (if accidental
                then (case convertTable nameIndex of
                        Some j \<Rightarrow> arraySet False accidentals j True
                      | None \<Rightarrow> accidentals)
                else (case inclusionTable nameIndex of
                        Some j \<Rightarrow> arraySet False accidentals j False
                      | None \<Rightarrow> accidentals))
         in Inr (names ! nameIndex @ (if addN then ''n'' else []) @
                 (if (case arrayGet octaves nameIndex of
                        None \<Rightarrow> True
                      | Some shown \<Rightarrow> \<not> jseq octave shown)
                  then num_to_string octave else []),
                 outputAccidentals, outputOctaves)))"
proof -
  have num: "jadd (ofInt n) (jmul (ofInt (octaveKeys c)) (ofInt (octaveTranspose c))) = ofInt n"
    using assms by (simp add: ofInt_def)
  have oct: "jfloor (jdiv (ofInt n) (ofInt (octaveKeys c))) = ofInt (n div 12)"
    using octave_of_int[of 12 n 0] assms by (simp add: ofInt_def)
  have guard: "(jlt (ofInt (n div 12)) (Fin 1) \<or> jgt (ofInt (n div 12)) (ofInt (highestOctave c)))
      = (n div 12 < 1 \<or> highestOctave c < n div 12)"
    by (simp add: ofInt_def jgt_def)
  show ?thesis
  proof (cases "n div 12 < 1 \<or> highestOctave c < n div 12")
    case True
    then show ?thesis
      unfolding notenum2string_def Let_def num oct guard by simp
  next
    case False
    then have "0 \<le> n" by linarith
    have idx: "nameIndexOf (jrem (ofInt n) (ofInt (octaveKeys c))) = Some (nat (n mod 12))"
      using rem_of_int_12[OF \<open>0 \<le> n\<close>] assms(1) by (simp add: ofInt_def nameIndexOf_of_int)
    from False show ?thesis
      unfolding notenum2string_def Let_def num oct guard idx by simp
  qed
qed


lemma int_to_string_5: "int_to_string 5 = ''5''"
  by code_simp

lemmas renderer_tables =
  names_def convertTable_def inclusionTable_def correspondenceTable_def
  arraySet_def arrayGet_def

lemma render_C_sharp:
  assumes "octaveKeys c = 12" "octaveTranspose c = 0" "5 \<le> highestOctave c"
    and "length accidentals = 7" "length octaves = 12"
  shows "notenum2string c (ofInt 61) accidentals octaves =
           Inr (''C#'' @ (if octaves ! 1 = Fin 5 then [] else ''5''),
                accidentals[0 := True], octaves[1 := Fin 5, 0 := Fin 5])"
proof -
  have "(61::int) div 12 = 5" "(61::int) mod 12 = 1" by simp_all
  then show ?thesis
    using assms(3-5) unfolding notenum2string_int[OF assms(1,2)]
    by (auto simp: Let_def renderer_tables int_to_string_5 jseq_def ofInt_def)
qed

lemma render_C_natural:
  assumes "octaveKeys c = 12" "octaveTranspose c = 0" "5 \<le> highestOctave c"
    and "length accidentals = 7" "length octaves = 12" "accidentals ! 0"
  shows "notenum2string c (ofInt 60) accidentals octaves =
           Inr (''Cn'' @ (if octaves ! 0 = Fin 5 then [] else ''5''),
                accidentals[0 := False], octaves[0 := Fin 5, 1 := Fin 5])"
proof -
  have "(60::int) div 12 = 5" "(60::int) mod 12 = 0" by simp_all
  then show ?thesis
    using assms(3-6) unfolding notenum2string_int[OF assms(1,2)]
    by (auto simp: Let_def renderer_tables int_to_string_5 jseq_def ofInt_def)
qed

lemma mod_12_cases:
  "(n::int) mod 12 \<noteq> 0 \<Longrightarrow>
   n mod 12 = 1 \<or> n mod 12 = 2 \<or> n mod 12 = 3 \<or> n mod 12 = 4 \<or> n mod 12 = 5 \<or> n mod 12 = 6
   \<or> n mod 12 = 7 \<or> n mod 12 = 8 \<or> n mod 12 = 9 \<or> n mod 12 = 10 \<or> n mod 12 = 11"
  by presburger

lemma notenum2string_keeps_sharp:
  assumes cfg: "octaveKeys c = 12" "octaveTranspose c = 0"
    and st: "length accidentals = 7" "length octaves = 12" "accidentals ! 0"
    and noC: "n mod 12 \<noteq> 0"
    and run: "notenum2string c (ofInt n) accidentals octaves = Inr (token, accidentals', octaves')"
  shows "length accidentals' = 7 \<and> length octaves' = 12 \<and> accidentals' ! 0
         \<and> ((n mod 12 = 1 \<longrightarrow> n div 12 = 5) \<longrightarrow> octaves ! 0 = Fin 5 \<longrightarrow> octaves' ! 0 = Fin 5)"
proof (cases "n div 12 < 1 \<or> highestOctave c < n div 12")
  case True
  with run show ?thesis using st unfolding notenum2string_int[OF cfg] by simp
next
  case False
  from mod_12_cases[OF noC] show ?thesis
    using run False st unfolding notenum2string_int[OF cfg]
    by (elim disjE) (auto simp: Let_def renderer_tables ofInt_def)
qed


lemma renderPitches_keeps_sharp:
  assumes cfg: "octaveKeys c = 12" "octaveTranspose c = 0"
  shows "renderPitches c pitches (sheetMusic, accidentals, octaves)
           = Inr (sheetMusic', accidentals', octaves') \<Longrightarrow>
         length accidentals = 7 \<Longrightarrow> length octaves = 12 \<Longrightarrow> accidentals ! 0 \<Longrightarrow>
         \<forall>pitch \<in> set pitches. \<exists>n. pitch = Some n \<and> n mod 12 \<noteq> 0 \<Longrightarrow>
         length accidentals' = 7 \<and> length octaves' = 12 \<and> accidentals' ! 0
         \<and> ((\<forall>n. Some n \<in> set pitches \<longrightarrow> n mod 12 = 1 \<longrightarrow> n div 12 = 5) \<longrightarrow>
              octaves ! 0 = Fin 5 \<longrightarrow> octaves' ! 0 = Fin 5)"
proof (induction pitches arbitrary: sheetMusic accidentals octaves)
  case Nil
  then show ?case by simp
next
  case (Cons pitch rest)
  from Cons.prems(5) obtain n where n: "pitch = Some n" "n mod 12 \<noteq> 0" by auto
  from Cons.prems(1) n(1) obtain token acc1 oct1 where
    one: "notenum2string c (ofInt n) accidentals octaves = Inr (token, acc1, oct1)"
    and more: "renderPitches c rest
                 (sheetMusic @ token @ (if rest \<noteq> [] then ''-'' else []), acc1, oct1)
               = Inr (sheetMusic', accidentals', octaves')"
    by (auto split: sum.splits)
  from notenum2string_keeps_sharp[OF cfg Cons.prems(2,3,4) n(2) one]
  have k1: "length acc1 = 7" "length oct1 = 12" "acc1 ! 0"
    and k2: "(n mod 12 = 1 \<longrightarrow> n div 12 = 5) \<longrightarrow> octaves ! 0 = Fin 5 \<longrightarrow> oct1 ! 0 = Fin 5"
    by blast+
  from Cons.prems(5) have rest: "\<forall>pitch \<in> set rest. \<exists>n. pitch = Some n \<and> n mod 12 \<noteq> 0"
    by simp
  from Cons.IH[OF more k1 rest]
  have r1: "length accidentals' = 7" "length octaves' = 12" "accidentals' ! 0"
    and r2: "(\<forall>n. Some n \<in> set rest \<longrightarrow> n mod 12 = 1 \<longrightarrow> n div 12 = 5) \<longrightarrow>
              oct1 ! 0 = Fin 5 \<longrightarrow> octaves' ! 0 = Fin 5"
    by blast+
  from k2 r2 n(1) have "(\<forall>m. Some m \<in> set (pitch # rest) \<longrightarrow> m mod 12 = 1 \<longrightarrow> m div 12 = 5) \<longrightarrow>
              octaves ! 0 = Fin 5 \<longrightarrow> octaves' ! 0 = Fin 5"
    by simp
  with r1 show ?case by blast
qed

lemma renderChords_keeps_sharp:
  assumes cfg: "octaveKeys c = 12" "octaveTranspose c = 0"
  shows "renderChords c mostFrequentDur chords (sheetMusic, accidentals, octaves)
           = Inr (sheetMusic', accidentals', octaves') \<Longrightarrow>
         length accidentals = 7 \<Longrightarrow> length octaves = 12 \<Longrightarrow> accidentals ! 0 \<Longrightarrow>
         \<forall>chord \<in> set chords. \<forall>pitch \<in> set (fst chord). \<exists>n. pitch = Some n \<and> n mod 12 \<noteq> 0 \<Longrightarrow>
         length accidentals' = 7 \<and> length octaves' = 12 \<and> accidentals' ! 0
         \<and> ((\<forall>chord \<in> set chords. \<forall>n. Some n \<in> set (fst chord) \<longrightarrow> n mod 12 = 1 \<longrightarrow> n div 12 = 5)
              \<longrightarrow> octaves ! 0 = Fin 5 \<longrightarrow> octaves' ! 0 = Fin 5)"
proof (induction chords arbitrary: sheetMusic accidentals octaves)
  case Nil
  then show ?case by simp
next
  case (Cons chord rest)
  from Cons.prems(1) obtain sm1 acc1 oct1 sm2 where
    one: "renderPitches c (fst chord) (sheetMusic, accidentals, octaves) = Inr (sm1, acc1, oct1)"
    and more: "renderChords c mostFrequentDur rest (sm2 @ '','', acc1, oct1)
               = Inr (sheetMusic', accidentals', octaves')"
    by (auto split: sum.splits)
  from Cons.prems(5) have here: "\<forall>pitch \<in> set (fst chord). \<exists>n. pitch = Some n \<and> n mod 12 \<noteq> 0"
    and rest: "\<forall>chord \<in> set rest. \<forall>pitch \<in> set (fst chord). \<exists>n. pitch = Some n \<and> n mod 12 \<noteq> 0"
    by simp_all
  from renderPitches_keeps_sharp[OF cfg one Cons.prems(2,3,4) here]
  have k1: "length acc1 = 7" "length oct1 = 12" "acc1 ! 0"
    and k2: "(\<forall>n. Some n \<in> set (fst chord) \<longrightarrow> n mod 12 = 1 \<longrightarrow> n div 12 = 5) \<longrightarrow>
              octaves ! 0 = Fin 5 \<longrightarrow> oct1 ! 0 = Fin 5"
    by blast+
  from Cons.IH[OF more k1 rest]
  have r1: "length accidentals' = 7" "length octaves' = 12" "accidentals' ! 0"
    and r2: "(\<forall>chord \<in> set rest. \<forall>n. Some n \<in> set (fst chord) \<longrightarrow> n mod 12 = 1 \<longrightarrow> n div 12 = 5)
              \<longrightarrow> oct1 ! 0 = Fin 5 \<longrightarrow> octaves' ! 0 = Fin 5"
    by blast+
  from k2 r2 have "(\<forall>chord \<in> set (chord # rest). \<forall>n. Some n \<in> set (fst chord) \<longrightarrow> n mod 12 = 1 \<longrightarrow> n div 12 = 5)
              \<longrightarrow> octaves ! 0 = Fin 5 \<longrightarrow> octaves' ! 0 = Fin 5"
    by simp
  with r1 show ?case by blast
qed

text \<open>
  C9. With twelve keys per octave and no transposition: a note at pitch 61 renders as
  \<open>C#\<close> (followed by the octave digit when the octave remembered for that slot is not
  5) and marks the C-sharp accidental active. After any chords that hold no C natural,
  the flag is still active, and a note at pitch 60 renders with the natural-cancel
  marker, as \<open>Cn\<close> (followed by the octave digit only when a C sharp of another octave
  came between), and clears the flag. It never renders as a bare \<open>C\<close>.
\<close>

theorem natural_cancel_after_sharp:
  assumes cfg: "octaveKeys c = 12" "octaveTranspose c = 0" "5 \<le> highestOctave c"
    and st: "length accidentals = 7" "length octaves = 12"
    and sharp: "notenum2string c (ofInt 61) accidentals octaves = Inr (token1, accidentals1, octaves1)"
    and between: "renderChords c mostFrequentDur chords (sheetMusic1, accidentals1, octaves1)
                    = Inr (sheetMusic2, accidentals2, octaves2)"
    and noC: "\<forall>chord \<in> set chords. \<forall>pitch \<in> set (fst chord). \<exists>n. pitch = Some n \<and> n mod 12 \<noteq> 0"
  shows "token1 = ''C#'' @ (if octaves ! 1 = Fin 5 then [] else ''5'')
       \<and> accidentals1 ! 0
       \<and> notenum2string c (ofInt 60) accidentals2 octaves2
           = Inr (''Cn'' @ (if octaves2 ! 0 = Fin 5 then [] else ''5''),
                  accidentals2[0 := False], octaves2[0 := Fin 5, 1 := Fin 5])
       \<and> ((\<forall>chord \<in> set chords. \<forall>n. Some n \<in> set (fst chord) \<longrightarrow> n mod 12 = 1 \<longrightarrow> n div 12 = 5)
            \<longrightarrow> octaves2 ! 0 = Fin 5)"
proof -
  from sharp render_C_sharp[OF cfg st]
  have t1: "token1 = ''C#'' @ (if octaves ! 1 = Fin 5 then [] else ''5'')"
    and a1: "accidentals1 = accidentals[0 := True]"
    and o1: "octaves1 = octaves[1 := Fin 5, 0 := Fin 5]"
    by simp_all
  have s1: "length accidentals1 = 7" "length octaves1 = 12" "accidentals1 ! 0" "octaves1 ! 0 = Fin 5"
    using st by (simp_all add: a1 o1)
  from renderChords_keeps_sharp[OF cfg(1,2) between s1(1,2,3) noC]
  have s2: "length accidentals2 = 7" "length octaves2 = 12" "accidentals2 ! 0"
    and o2: "(\<forall>chord \<in> set chords. \<forall>n. Some n \<in> set (fst chord) \<longrightarrow> n mod 12 = 1 \<longrightarrow> n div 12 = 5)
              \<longrightarrow> octaves2 ! 0 = Fin 5"
    using s1(4) by blast+
  from render_C_natural[OF cfg s2] t1 s1(3) o2 show ?thesis by blast
qed


theorem natural_cancel_after_sharp_witness:
  "octaveKeys (newPianoConverter noOptions) = 12
   \<and> octaveTranspose (newPianoConverter noOptions) = 0
   \<and> 5 \<le> highestOctave (newPianoConverter noOptions)
   \<and> notenum2string (newPianoConverter noOptions) (ofInt 61)
         (replicate 7 False) (replicate 12 (Fin 3))
       = Inr (''C#5'', [True, False, False, False, False, False, False],
              [Fin 5, Fin 5, Fin 3, Fin 3, Fin 3, Fin 3, Fin 3, Fin 3, Fin 3, Fin 3, Fin 3, Fin 3])
   \<and> renderChords (newPianoConverter noOptions) (Some (Fin 100))
         [([Some 64, Some 66], Fin 100)]
         (''C#5,'', [True, False, False, False, False, False, False],
          [Fin 5, Fin 5, Fin 3, Fin 3, Fin 3, Fin 3, Fin 3, Fin 3, Fin 3, Fin 3, Fin 3, Fin 3])
       = Inr (''C#5,E5-F#5,'', [True, False, True, False, False, False, False],
              [Fin 5, Fin 5, Fin 3, Fin 3, Fin 5, Fin 5, Fin 5, Fin 3, Fin 3, Fin 3, Fin 3, Fin 3])
   \<and> notenum2string (newPianoConverter noOptions) (ofInt 60)
         [True, False, True, False, False, False, False]
         [Fin 5, Fin 5, Fin 3, Fin 3, Fin 5, Fin 5, Fin 5, Fin 3, Fin 3, Fin 3, Fin 3, Fin 3]
       = Inr (''Cn'', [False, False, True, False, False, False, False],
              [Fin 5, Fin 5, Fin 3, Fin 3, Fin 5, Fin 5, Fin 5, Fin 3, Fin 3, Fin 3, Fin 3, Fin 3])"
proof -
  define c where "c = newPianoConverter noOptions"
  define a0 where "a0 = replicate 7 False"
  define o0 where "o0 = replicate 12 (Fin 3)"
  define a1 where "a1 = [True, False, False, False, False, False, False]"
  define o1 where
    "o1 = [Fin 5, Fin 5, Fin 3, Fin 3, Fin 3, Fin 3, Fin 3, Fin 3, Fin 3, Fin 3, Fin 3, Fin 3]"
  define a2 where "a2 = [True, False, True, False, False, False, False]"
  define o2 where
    "o2 = [Fin 5, Fin 5, Fin 3, Fin 3, Fin 5, Fin 5, Fin 5, Fin 3, Fin 3, Fin 3, Fin 3, Fin 3]"
  define chords where "chords = [([Some (64::int), Some 66], Fin 100)]"
  have cfg: "octaveKeys c = 12" "octaveTranspose c = 0" "5 \<le> highestOctave c"
    by (simp_all add: c_def newPianoConverter_def noOptions_def)
  have st: "length a0 = 7" "length o0 = 12" by (simp_all add: a0_def o0_def)
  have sharp: "notenum2string c (ofInt 61) a0 o0 = Inr (''C#5'', a1, o1)"
    unfolding c_def a0_def o0_def a1_def o1_def by code_simp
  have between: "renderChords c (Some (Fin 100)) chords (''C#5,'', a1, o1)
                   = Inr (''C#5,E5-F#5,'', a2, o2)"
    unfolding c_def chords_def a1_def o1_def a2_def o2_def by code_simp
  have noC: "\<forall>chord \<in> set chords. \<forall>pitch \<in> set (fst chord). \<exists>n. pitch = Some n \<and> n mod 12 \<noteq> 0"
    by (simp add: chords_def)
  have noSharp: "\<forall>chord \<in> set chords. \<forall>n. Some n \<in> set (fst chord) \<longrightarrow> n mod 12 = 1 \<longrightarrow> n div 12 = 5"
    by (auto simp: chords_def)
  from natural_cancel_after_sharp[OF cfg st sharp between noC] noSharp
  have "notenum2string c (ofInt 60) a2 o2
          = Inr (''Cn'' @ (if o2 ! 0 = Fin 5 then [] else ''5''), a2[0 := False],
                 o2[0 := Fin 5, 1 := Fin 5])"
    and "o2 ! 0 = Fin 5"
    by blast+
  then have "notenum2string c (ofInt 60) a2 o2
          = Inr (''Cn'', [False, False, True, False, False, False, False], o2)"
    by (simp add: a2_def o2_def)
  with cfg sharp between show ?thesis
    unfolding c_def a0_def o0_def a1_def o1_def a2_def o2_def chords_def by blast
qed

end
